theory Spec2Isabelle
  imports Complex_Main
begin

section \<open>The synthetic dataset generator of data\_generation.py\<close>

text \<open>
  The four generators of \<^verbatim>\<open>data_generation.py\<close> build a list of dictionaries, one per
  row, from draws of Python's \<^verbatim>\<open>random\<close> module, and hand the list to
  \<^verbatim>\<open>pd.DataFrame\<close>. The embedding keeps that shape: a row is an association list
  from column names to cells, a generator is a function of the state of the random
  source that returns either an error or the data frame with the state left behind.

  Python ints are unbounded and are \<open>int\<close>. A Python float is a real number. The
  sums and products that the generators form before they round are taken exactly; the
  two operations whose result is stored in a column, \<^verbatim>\<open>round\<close> and the quotient of two
  ints, return the IEEE double that Python returns (\<open>to_double\<close> below).
\<close>

subsection \<open>Errors and the random source\<close>

datatype py_error = ValueError | IndexError | KeyError | ZeroDivisionError

text \<open>
  The state of the \<^verbatim>\<open>random\<close> module is a stream of raw numbers and the count of those
  already consumed. Which stream it is depends on how the module was initialised; the
  script never seeds it, so the stream is an input of the run.
\<close>

record rng =
  raw :: "nat \<Rightarrow> nat"
  pos :: nat

type_synonym 'a draw = "rng \<Rightarrow> py_error + ('a \<times> rng)"

definition ret :: "'a \<Rightarrow> 'a draw" where
  "ret x g = Inr (x, g)"

definition raise :: "py_error \<Rightarrow> 'a draw" where
  "raise e g = Inl e"

definition and_then :: "'a draw \<Rightarrow> ('a \<Rightarrow> 'b draw) \<Rightarrow> 'b draw" where
  "and_then m f g = (case m g of Inl e \<Rightarrow> Inl e | Inr (x, g') \<Rightarrow> f x g')"

definition next_raw :: "nat draw" where
  "next_raw g = Inr (raw g (pos g), g\<lparr>pos := Suc (pos g)\<rparr>)"

text \<open>\<^verbatim>\<open>random._randbelow(n)\<close>: a number in \<open>[0, n)\<close>, from one raw number.\<close>

definition randbelow :: "nat \<Rightarrow> nat draw" where
  "randbelow n = and_then next_raw (\<lambda>r. ret (r mod n))"

text \<open>\<^verbatim>\<open>random.random()\<close>: a multiple of \<open>2^-53\<close> in \<open>[0, 1)\<close>.\<close>

definition random :: "real draw" where
  "random = and_then next_raw (\<lambda>r. ret (real (r mod 2 ^ 53) / 2 ^ 53))"

text \<open>\<^verbatim>\<open>random.uniform(a, b)\<close> is \<^verbatim>\<open>a + (b - a) * self.random()\<close>.\<close>

definition uniform :: "real \<Rightarrow> real \<Rightarrow> real draw" where
  "uniform a b = and_then random (\<lambda>u. ret (a + (b - a) * u))"

text \<open>
  \<^verbatim>\<open>random.randint(a, b)\<close> is \<^verbatim>\<open>randrange(a, b + 1)\<close>: ValueError on an empty range,
  otherwise \<^verbatim>\<open>a + _randbelow(b + 1 - a)\<close>.
\<close>

definition randint :: "int \<Rightarrow> int \<Rightarrow> int draw" where
  "randint a b =
     (if b + 1 - a \<le> 0 then raise ValueError
      else and_then (randbelow (nat (b + 1 - a))) (\<lambda>k. ret (a + int k)))"

text \<open>\<^verbatim>\<open>random.choice(seq)\<close>: IndexError on an empty sequence.\<close>

definition choice :: "'a list \<Rightarrow> 'a draw" where
  "choice seq =
     (if length seq = 0 then raise IndexError
      else and_then (randbelow (length seq)) (\<lambda>k. ret (seq ! k)))"

subsection \<open>Python built-ins the generators use\<close>

text \<open>\<^verbatim>\<open>range(n)\<close> is empty for \<open>n \<le> 0\<close>.\<close>

definition range_py :: "int \<Rightarrow> int list" where
  "range_py n = [0..n - 1]"

text \<open>
  \<^verbatim>\<open>xs[i]\<close> on a list: index \<open>-1\<close> is the last element, and an index outside
  \<open>[-len, len)\<close> raises IndexError.
\<close>

definition list_get :: "'a list \<Rightarrow> int \<Rightarrow> 'a draw" where
  "list_get xs i =
     (if 0 \<le> i \<and> i < int (length xs) then ret (xs ! nat i)
      else if i < 0 \<and> - int (length xs) \<le> i then ret (xs ! nat (int (length xs) + i))
      else raise IndexError)"

text \<open>\<^verbatim>\<open>d[k]\<close> on a dict.\<close>

definition dict_get :: "('k \<times> 'v) list \<Rightarrow> 'k \<Rightarrow> 'v draw" where
  "dict_get d k = (case map_of d k of None \<Rightarrow> raise KeyError | Some v \<Rightarrow> ret v)"

text \<open>\<^verbatim>\<open>int(x)\<close> on a float truncates towards zero.\<close>

definition py_int :: "real \<Rightarrow> int" where
  "py_int x = (if 0 \<le> x then \<lfloor>x\<rfloor> else \<lceil>x\<rceil>)"

text \<open>To the nearest integer, a tie to the even one.\<close>

definition round_half_even :: "real \<Rightarrow> int" where
  "round_half_even y =
     (let f = \<lfloor>y\<rfloor>; d = y - of_int f
      in if d < 1 / 2 then f else if 1 / 2 < d then f + 1
         else if even f then f else f + 1)"

text \<open>
  The IEEE 754 double nearest to a real, a tie to the even significand: with
  \<open>2^e \<le> |x| < 2^(e+1)\<close> the doubles around \<open>x\<close> are the multiples of \<open>2^(e-52)\<close>.
  Every float of the script lies far inside the normal range, so overflow and
  subnormal numbers are left out. \<open>bit_length n\<close> is \<^verbatim>\<open>n.bit_length()\<close>.
\<close>

fun bit_length :: "nat \<Rightarrow> nat" where
  "bit_length n = (if n = 0 then 0 else Suc (bit_length (n div 2)))"

declare bit_length.simps [simp del]

definition pow2 :: "int \<Rightarrow> real" where
  "pow2 e = (if 0 \<le> e then 2 ^ nat e else 1 / 2 ^ nat (- e))"

definition exponent :: "real \<Rightarrow> int" where
  "exponent x =
     (let a = \<bar>x\<bar> in
      if 1 \<le> a then int (bit_length (nat \<lfloor>a\<rfloor>)) - 1
      else (let b = bit_length (nat \<lfloor>1 / a\<rfloor>)
            in if a * 2 ^ (b - 1) = 1 then 1 - int b else - int b))"

definition to_double :: "real \<Rightarrow> real" where
  "to_double x =
     (if x = 0 then 0
      else (let q = pow2 (exponent x - 52) in of_int (round_half_even (x / q)) * q))"

text \<open>
  \<^verbatim>\<open>a / b\<close> on two ints: ZeroDivisionError for \<open>b = 0\<close>, otherwise the double nearest to
  the exact quotient.
\<close>

definition truediv :: "int \<Rightarrow> int \<Rightarrow> real draw" where
  "truediv a b =
     (if b = 0 then raise ZeroDivisionError else ret (to_double (of_int a / of_int b)))"

text \<open>
  \<^verbatim>\<open>round(x, nd)\<close> on a float: \<open>x\<close> is rounded to the nearest decimal with \<open>nd\<close> places,
  a tie to the even one (\<open>decimal_round\<close>), and the result is the double nearest to that
  decimal.
\<close>

definition decimal_round :: "real \<Rightarrow> nat \<Rightarrow> real" where
  "decimal_round x nd = of_int (round_half_even (x * 10 ^ nd)) / 10 ^ nd"

definition py_round :: "real \<Rightarrow> nat \<Rightarrow> real" where
  "py_round x nd = to_double (decimal_round x nd)"

text \<open>\<^verbatim>\<open>str(i)\<close> on an int, as the f-strings format it.\<close>

definition digit_char :: "nat \<Rightarrow> char" where
  "digit_char d = ''0123456789'' ! d"

fun digits :: "nat \<Rightarrow> string" where
  "digits n = (if n < 10 then [digit_char n] else digits (n div 10) @ [digit_char (n mod 10)])"

declare digits.simps [simp del]

definition py_str :: "int \<Rightarrow> string" where
  "py_str i = (if i < 0 then CHR ''-'' # digits (nat (- i)) else digits (nat i))"

subsection \<open>Dates\<close>

text \<open>
  A date is its proleptic Gregorian ordinal (\<^verbatim>\<open>date.toordinal()\<close>); every datetime of
  the script is at midnight. Adding \<^verbatim>\<open>timedelta(days=k)\<close> adds \<open>k\<close>.
\<close>

definition is_leap :: "int \<Rightarrow> bool" where
  "is_leap y = (y mod 4 = 0 \<and> (y mod 100 \<noteq> 0 \<or> y mod 400 = 0))"

definition days_in_month :: "int \<Rightarrow> int \<Rightarrow> int" where
  "days_in_month y m =
     (if m = 2 then (if is_leap y then 29 else 28)
      else if m = 4 \<or> m = 6 \<or> m = 9 \<or> m = 11 then 30 else 31)"

definition days_before_year :: "int \<Rightarrow> int" where
  "days_before_year y = (let z = y - 1 in z * 365 + z div 4 - z div 100 + z div 400)"

definition days_before_month :: "int \<Rightarrow> int \<Rightarrow> int" where
  "days_before_month y m = sum_list (map (days_in_month y) [1..m - 1])"

definition datetime :: "int \<Rightarrow> int \<Rightarrow> int \<Rightarrow> int" where
  "datetime y m d = days_before_year y + days_before_month y m + d"

subsection \<open>Rows, data frames and loops\<close>

datatype cell = CStr string | CInt int | CFloat real | CDate int

type_synonym row = "(string \<times> cell) list"

record data_frame =
  columns :: "string list"
  records :: "row list"

text \<open>
  \<^verbatim>\<open>pd.DataFrame(data)\<close> on a list of dicts: the columns are the keys in the order of
  their first appearance, so an empty list gives a frame with no column.
\<close>

definition add_keys :: "row \<Rightarrow> string list \<Rightarrow> string list" where
  "add_keys r cols = fold (\<lambda>k acc. if k \<in> set acc then acc else acc @ [k]) (map fst r) cols"

definition DataFrame :: "row list \<Rightarrow> data_frame" where
  "DataFrame data = \<lparr>columns = fold add_keys data [], records = data\<rparr>"

text \<open>
  A \<^verbatim>\<open>for\<close> loop over a list that updates an accumulator and may draw or raise.
\<close>

fun for_loop :: "'i list \<Rightarrow> ('i \<Rightarrow> 'acc \<Rightarrow> 'acc draw) \<Rightarrow> 'acc \<Rightarrow> 'acc draw" where
  "for_loop [] body acc g = Inr (acc, g)"
| "for_loop (i # is) body acc g =
     (case body i acc g of Inl e \<Rightarrow> Inl e | Inr (acc', g') \<Rightarrow> for_loop is body acc' g')"

text \<open>The value of a column in a row.\<close>

definition field :: "row \<Rightarrow> string \<Rightarrow> cell option" where
  "field r k = map_of r k"

subsection \<open>generate\_customer\_data\<close>

definition customer_row :: "int \<Rightarrow> row draw" where
  "customer_row i =
     and_then (randint 0 1460) (\<lambda>days.
     let signup_date = datetime 2020 1 1 + days in
     and_then (randint 1 50) (\<lambda>purchases.
     and_then (uniform 50 500) (\<lambda>avg_order.
     let lifetime_value = of_int purchases * avg_order in
     and_then (randint 0 365) (\<lambda>days_since_last.
     let churned = (if days_since_last > 180 then 1 else 0) in
     and_then (randint 1 5) (\<lambda>satisfaction.
     and_then (randint 0 10) (\<lambda>tickets.
     and_then (choice [''High Value'', ''Medium Value'', ''Low Value'']) (\<lambda>segment.
     ret [(''Customer_ID'', CStr (''CUST-'' @ py_str (i + 1000))),
          (''Signup_Date'', CDate signup_date),
          (''Total_Purchases'', CInt purchases),
          (''Avg_Order_Value'', CFloat (py_round avg_order 2)),
          (''Lifetime_Value'', CFloat (py_round lifetime_value 2)),
          (''Days_Since_Last_Purchase'', CInt days_since_last),
          (''Churned'', CInt churned),
          (''Satisfaction_Score'', CInt satisfaction),
          (''Support_Tickets'', CInt tickets),
          (''Segment'', CStr segment)])))))))"

definition generate_customer_data :: "int \<Rightarrow> data_frame draw" where
  "generate_customer_data n =
     and_then
       (for_loop (range_py n)
          (\<lambda>i data. and_then (customer_row i) (\<lambda>r. ret (data @ [r]))) [])
       (\<lambda>data. ret (DataFrame data))"

subsection \<open>generate\_sales\_data\<close>

definition categories :: "string list" where
  "categories = [''Technology'', ''Furniture'', ''Office Supplies'']"

definition subcats :: "(string \<times> string list) list" where
  "subcats =
     [(''Technology'', [''Phones'', ''Computers'', ''Accessories'', ''Copiers'']),
      (''Furniture'', [''Chairs'', ''Tables'', ''Bookcases'', ''Furnishings'']),
      (''Office Supplies'', [''Paper'', ''Binders'', ''Art'', ''Storage'', ''Labels''])]"

definition regions :: "string list" where
  "regions = [''East'', ''West'', ''Central'', ''South'']"

definition segments :: "string list" where
  "segments = [''Consumer'', ''Corporate'', ''Home Office'']"

definition discounts :: "real list" where
  "discounts = [0, 0.1, 0.15, 0.2, 0.25]"

definition states :: "string list" where
  "states = [''California'', ''Texas'', ''New York'', ''Florida'',
             ''Illinois'', ''Pennsylvania'', ''Ohio'', ''Georgia'']"

text \<open>
  The body of the row loop. The values of the dict literal are evaluated in the order
  they are written, so the draws for the ship date, the product suffix, the customer
  number and the state come after the draw of the profit margin, in that order.
\<close>

definition sales_row :: "int list \<Rightarrow> int \<Rightarrow> row draw" where
  "sales_row dates i =
     and_then (choice categories) (\<lambda>cat.
     and_then (dict_get subcats cat) (\<lambda>subs.
     and_then (choice subs) (\<lambda>subcat.
     and_then (choice regions) (\<lambda>region.
     and_then (choice segments) (\<lambda>segment.
     and_then (if cat = ''Technology'' then uniform 50 2000
               else if cat = ''Furniture'' then uniform 100 1500
               else uniform 5 300) (\<lambda>price.
     and_then (randint 1 10) (\<lambda>qty.
     and_then (choice discounts) (\<lambda>discount.
     let sales = price * of_int qty * (1 - discount) in
     and_then (uniform 0.05 0.35) (\<lambda>margin.
     let profit = sales * margin in
     and_then (list_get dates i) (\<lambda>order_date.
     and_then (list_get dates i) (\<lambda>ship_base.
     and_then (randint 1 7) (\<lambda>ship_days.
     and_then (randint 100 999) (\<lambda>suffix.
     and_then (randint 1000 9999) (\<lambda>cust.
     and_then (choice states) (\<lambda>state.
     ret [(''Order_ID'', CStr (''ORD-'' @ py_str (i + 1000))),
          (''Order_Date'', CDate order_date),
          (''Ship_Date'', CDate (ship_base + ship_days)),
          (''Category'', CStr cat),
          (''Sub_Category'', CStr subcat),
          (''Product_Name'', CStr (subcat @ '' '' @ py_str suffix)),
          (''Sales'', CFloat (py_round sales 2)),
          (''Quantity'', CInt qty),
          (''Discount'', CFloat discount),
          (''Profit'', CFloat (py_round profit 2)),
          (''Region'', CStr region),
          (''Segment'', CStr segment),
          (''Customer_ID'', CStr (''CUST-'' @ py_str cust)),
          (''State'', CStr state)])))))))))))))))"

definition generate_sales_data :: "int \<Rightarrow> data_frame draw" where
  "generate_sales_data n =
     (let start = datetime 2022 1 1 in
      and_then
        (for_loop (range_py n)
           (\<lambda>_ ds. and_then (randint 0 1095) (\<lambda>k. ret (ds @ [start + k]))) [])
        (\<lambda>dates.
      and_then
        (for_loop (range_py n)
           (\<lambda>i data. and_then (sales_row dates i) (\<lambda>r. ret (data @ [r]))) [])
        (\<lambda>data. ret (DataFrame data))))"

subsection \<open>generate\_operations\_data\<close>

text \<open>\<^verbatim>\<open>pd.date_range(start, end, freq='D')\<close>: every day from start to end, both included.\<close>

definition date_range_D :: "int \<Rightarrow> int \<Rightarrow> int list" where
  "date_range_D s e = [s..e]"

definition operations_row :: "int \<Rightarrow> string \<Rightarrow> row draw" where
  "operations_row date shift =
     and_then (randint 800 1200) (\<lambda>production.
     and_then (uniform 0.01 0.05) (\<lambda>rate.
     let defects = py_int (of_int production * rate) in
     and_then (randint 0 120) (\<lambda>downtime.
     and_then (truediv defects production) (\<lambda>defect_rate.
     and_then (uniform 0.75 0.98) (\<lambda>efficiency.
     and_then (randint 500 800) (\<lambda>energy.
     and_then (randint 150 200) (\<lambda>labor.
     ret [(''Date'', CDate date),
          (''Shift'', CStr shift),
          (''Units_Produced'', CInt production),
          (''Defects'', CInt defects),
          (''Defect_Rate'', CFloat (py_round defect_rate 4)),
          (''Downtime_Minutes'', CInt downtime),
          (''Efficiency'', CFloat (py_round efficiency 3)),
          (''Energy_Used'', CInt energy),
          (''Labor_Hours'', CInt labor)])))))))"

text \<open>The parameter \<open>n\<close> of the source is never read.\<close>

definition generate_operations_data :: "int \<Rightarrow> data_frame draw" where
  "generate_operations_data n =
     (let dates = date_range_D (datetime 2023 1 1) (datetime 2024 12 31) in
      and_then
        (for_loop dates
           (\<lambda>date data.
              for_loop [''Morning'', ''Evening'', ''Night'']
                (\<lambda>shift data. and_then (operations_row date shift) (\<lambda>r. ret (data @ [r])))
                data)
           [])
        (\<lambda>data. ret (DataFrame data)))"

subsection \<open>generate\_financial\_data\<close>

text \<open>
  \<^verbatim>\<open>pd.date_range(start, end, freq='MS')\<close>: the first days of the months that lie between
  start and end, both included, in calendar order.
\<close>

definition month_starts :: "int \<Rightarrow> int \<Rightarrow> int list" where
  "month_starts y0 y1 = concat (map (\<lambda>y. map (\<lambda>m. datetime y m 1) [1..12]) [y0..y1])"

definition date_range_MS :: "int \<times> int \<times> int \<Rightarrow> int \<times> int \<times> int \<Rightarrow> int list" where
  "date_range_MS s e =
     (case (s, e) of ((ys, ms, ds), (ye, me, de)) \<Rightarrow>
        filter (\<lambda>d. datetime ys ms ds \<le> d \<and> d \<le> datetime ye me de) (month_starts ys ye))"

definition base_revenue :: real where
  "base_revenue = 500000"

definition financial_row :: "nat \<Rightarrow> int \<Rightarrow> row draw" where
  "financial_row i month =
     (let trend = base_revenue * (1 + 0.015 * real i);
          seasonal = trend * (1 + 0.1 * sin (2 * pi * real i / 12)) in
      and_then (uniform (- 20000) 30000) (\<lambda>noise.
      let revenue = seasonal + noise in
      and_then (uniform 0.55 0.65) (\<lambda>cogs_share.
      let cogs = revenue * cogs_share in
      and_then (uniform 0.20 0.30) (\<lambda>opex_share.
      let opex = revenue * opex_share;
          profit = revenue - cogs - opex in
      and_then (uniform 0.9 1.1) (\<lambda>budget_factor.
      and_then (uniform 0.8 1.2) (\<lambda>cash_factor.
      ret [(''Month'', CDate month),
           (''Revenue'', CFloat (py_round revenue 2)),
           (''COGS'', CFloat (py_round cogs 2)),
           (''Operating_Expenses'', CFloat (py_round opex 2)),
           (''Gross_Profit'', CFloat (py_round (revenue - cogs) 2)),
           (''Net_Profit'', CFloat (py_round profit 2)),
           (''Budget_Revenue'', CFloat (py_round (revenue * budget_factor) 2)),
           (''Cash_Flow'', CFloat (py_round (profit * cash_factor) 2))]))))))"

definition generate_financial_data :: "data_frame draw" where
  "generate_financial_data =
     (let months = date_range_MS (2022, 1, 1) (2024, 12, 31) in
      and_then
        (for_loop (enumerate 0 months)
           (\<lambda>(i, month) data. and_then (financial_row i month) (\<lambda>r. ret (data @ [r]))) [])
        (\<lambda>data. ret (DataFrame data)))"

subsection \<open>The script\<close>

text \<open>
  The module seeds NumPy's generator (\<^verbatim>\<open>np.random.seed(42)\<close>) and then calls the four
  generators, all of which draw from the \<^verbatim>\<open>random\<close> module. The state of NumPy's
  generator is a function of the seed and of the number of draws taken from it; the
  state of \<^verbatim>\<open>random\<close> at start is whatever the interpreter initialised it to.
  The script then writes each frame with \<^verbatim>\<open>to_csv\<close>; the four frames are its result
  here, the text of the files is not modelled.
\<close>

record np_state =
  np_seed :: nat
  np_drawn :: nat

definition np_random_seed :: "nat \<Rightarrow> np_state" where
  "np_random_seed seed = \<lparr>np_seed = seed, np_drawn = 0\<rparr>"

definition script ::
  "nat \<Rightarrow> rng \<Rightarrow> np_state \<times> (py_error + ((data_frame \<times> data_frame \<times> data_frame \<times> data_frame) \<times> rng))"
where
  "script seed g =
     (let np = np_random_seed seed in
      (np,
       and_then (generate_sales_data 5000) (\<lambda>sales_df.
       and_then (generate_operations_data 2000) (\<lambda>operations_df.
       and_then generate_financial_data (\<lambda>financial_df.
       and_then (generate_customer_data 1500) (\<lambda>customer_df.
       ret (sales_df, operations_df, financial_df, customer_df))))) g))"

subsection \<open>Reading results\<close>

text \<open>
  \<open>post m g Q\<close>: from state \<open>g\<close> the computation \<open>m\<close> returns, and its value and final
  state satisfy \<open>Q\<close>. \<open>returned\<close> is the value of a run, if it returned one.
\<close>

definition post :: "'a draw \<Rightarrow> rng \<Rightarrow> ('a \<Rightarrow> rng \<Rightarrow> bool) \<Rightarrow> bool" where
  "post m g Q = (case m g of Inl e \<Rightarrow> False | Inr (x, g') \<Rightarrow> Q x g')"

definition returned :: "py_error + ('a \<times> rng) \<Rightarrow> 'a option" where
  "returned res = (case res of Inl e \<Rightarrow> None | Inr (x, g) \<Rightarrow> Some x)"

subsection \<open>What a sales row holds\<close>

text \<open>
  The keys of the dict literal of \<open>sales_row\<close>, and what the row at index \<open>i\<close> holds
  given the list of order dates drawn before the row loop.
\<close>

definition sales_columns :: "string list" where
  "sales_columns = [''Order_ID'', ''Order_Date'', ''Ship_Date'', ''Category'', ''Sub_Category'',
     ''Product_Name'', ''Sales'', ''Quantity'', ''Discount'', ''Profit'', ''Region'', ''Segment'',
     ''Customer_ID'', ''State'']"

definition sales_row_ok :: "int list \<Rightarrow> int \<Rightarrow> row \<Rightarrow> bool" where
  "sales_row_ok dates i r =
     (map fst r = sales_columns \<and>
      field r ''Order_Date'' = Some (CDate (dates ! nat i)) \<and>
      (\<exists>k d. field r ''Ship_Date'' = Some (CDate (dates ! nat i + k)) \<and> 1 \<le> k \<and> k \<le> 7 \<and>
         field r ''Discount'' = Some (CFloat d) \<and> d \<in> set discounts))"

subsection \<open>What an operations row and a financial row hold\<close>

text \<open>
  For the financial row at index \<open>i\<close> the revenue, cost of goods sold and operating
  expenses before rounding are named, since the stored fields are each rounded from them.
\<close>

definition operations_row_ok :: "row \<Rightarrow> bool" where
  "operations_row_ok r =
     (\<exists>p d. field r ''Units_Produced'' = Some (CInt p) \<and> field r ''Defects'' = Some (CInt d) \<and>
        800 \<le> p \<and> p \<le> 1200 \<and> 0 \<le> d \<and> d \<le> p \<and>
        field r ''Defect_Rate'' = Some (CFloat (py_round (to_double (of_int d / of_int p)) 4)))"

definition financial_row_ok :: "nat \<Rightarrow> int \<Rightarrow> row \<Rightarrow> bool" where
  "financial_row_ok i month r =
     (\<exists>revenue cogs opex.
        field r ''Month'' = Some (CDate month) \<and>
        field r ''Revenue'' = Some (CFloat (py_round revenue 2)) \<and>
        field r ''COGS'' = Some (CFloat (py_round cogs 2)) \<and>
        field r ''Operating_Expenses'' = Some (CFloat (py_round opex 2)) \<and>
        field r ''Gross_Profit'' = Some (CFloat (py_round (revenue - cogs) 2)) \<and>
        field r ''Net_Profit'' = Some (CFloat (py_round (revenue - cogs - opex) 2)) \<and>
        430000 \<le> revenue \<and> revenue \<le> 550000 * (1 + 0.015 * real i) + 30000 \<and>
        0.55 * revenue \<le> cogs \<and> cogs \<le> 0.65 * revenue \<and>
        0.2 * revenue \<le> opex \<and> opex \<le> 0.3 * revenue)"

section \<open>Proof rules for computations that draw\<close>

lemma post_iff: "post m g Q \<longleftrightarrow> (\<exists>x g'. m g = Inr (x, g') \<and> Q x g')"
  by (auto simp: post_def split: sum.splits)

lemma post_ret [simp]: "post (ret x) g Q = Q x g"
  by (simp add: post_def ret_def)

lemma post_raise [simp]: "post (raise e) g Q = False"
  by (simp add: post_def raise_def)

lemma post_and_then [simp]: "post (and_then m f) g Q = post m g (\<lambda>x g'. post (f x) g' Q)"
  by (simp add: post_def and_then_def split: sum.splits)

lemma post_mono: "post m g P \<Longrightarrow> (\<And>x g'. P x g' \<Longrightarrow> Q x g') \<Longrightarrow> post m g Q"
  by (auto simp: post_def split: sum.splits)

lemma post_next_raw [simp]: "post next_raw g Q = Q (raw g (pos g)) (g\<lparr>pos := Suc (pos g)\<rparr>)"
  by (simp add: post_def next_raw_def)

lemma post_randint:
  assumes "a \<le> b" and "\<And>k g'. a \<le> k \<Longrightarrow> k \<le> b \<Longrightarrow> Q k g'"
  shows "post (randint a b) g Q"
proof -
  have "0 < nat (b + 1 - a)" using assms(1) by simp
  then have "raw g (pos g) mod nat (b + 1 - a) < nat (b + 1 - a)" by simp
  then have "a + int (raw g (pos g) mod nat (b + 1 - a)) \<le> b" by linarith
  then show ?thesis using assms by (simp add: randint_def randbelow_def)
qed

lemma post_choice:
  assumes "seq \<noteq> []" and "\<And>x g'. x \<in> set seq \<Longrightarrow> Q x g'"
  shows "post (choice seq) g Q"
  using assms by (simp add: choice_def randbelow_def)

lemma post_uniform:
  assumes "a \<le> b" and "\<And>x g'. a \<le> x \<Longrightarrow> x \<le> b \<Longrightarrow> Q x g'"
  shows "post (uniform a b) g Q"
proof -
  let ?u = "real (raw g (pos g) mod 2 ^ 53) / 2 ^ 53"
  have u0: "0 \<le> ?u" by simp
  have "raw g (pos g) mod 2 ^ 53 < 2 ^ 53" by simp
  then have "real (raw g (pos g) mod 2 ^ 53) < 2 ^ 53"
    by (metis of_nat_less_iff of_nat_numeral of_nat_power)
  then have u1: "?u \<le> 1" by simp
  have "0 \<le> (b - a) * ?u" using assms(1) u0 by simp
  moreover have "(b - a) * ?u \<le> (b - a) * 1" using assms(1) u1 by (intro mult_left_mono) auto
  ultimately have "a \<le> a + (b - a) * ?u" "a + (b - a) * ?u \<le> b" by auto
  then show ?thesis using assms(2) by (simp add: uniform_def random_def)
qed

lemma for_loop_post:
  assumes "I 0 acc g"
    and "\<And>k a h. k < length is \<Longrightarrow> I k a h \<Longrightarrow> post (body (is ! k) a) h (I (Suc k))"
  shows "post (for_loop is body acc) g (I (length is))"
  using assms
proof (induction "is" arbitrary: acc g I)
  case Nil
  then show ?case by (simp add: post_def)
next
  case (Cons i "is")
  have "post (body i acc) g (I (Suc 0))" using Cons.prems(2)[of 0 acc g] Cons.prems(1) by simp
  then obtain a' g' where b: "body i acc g = Inr (a', g')" and i1: "I (Suc 0) a' g'"
    by (auto simp: post_iff)
  have "post (for_loop is body a') g' ((\<lambda>k. I (Suc k)) (length is))"
  proof (rule Cons.IH)
    show "I (Suc 0) a' g'" by (rule i1)
  next
    fix k a h assume "k < length is" "I (Suc k) a h"
    then show "post (body (is ! k) a) h (I (Suc (Suc k)))"
      using Cons.prems(2)[of "Suc k" a h] by simp
  qed
  then show ?case using b by (simp add: post_def)
qed


lemma post_for_loop_all:
  assumes "\<And>i a h. post (body i a) h (\<lambda>a' _. \<exists>r. a' = a @ [r] \<and> P r)"
  shows "post (for_loop is body []) g (\<lambda>a _. length a = length is \<and> (\<forall>r\<in>set a. P r))"
proof -
  let ?I = "\<lambda>k a (h::rng). length a = k \<and> (\<forall>r\<in>set a. P r)"
  have "post (for_loop is body []) g (?I (length is))"
  proof (rule for_loop_post)
    show "?I 0 [] g" by simp
  next
    fix k a h assume "k < length is" "?I k a h"
    then show "post (body (is ! k) a) h (?I (Suc k))"
      using assms[of "is ! k" a h] by (auto elim!: post_mono)
  qed
  then show ?thesis .
qed

lemma post_truediv:
  assumes "b \<noteq> 0" "Q (to_double (of_int a / of_int b)) g"
  shows "post (truediv a b) g Q"
  using assms by (simp add: truediv_def)

lemma post_for_loop_indexed:
  assumes "\<And>k a h. k < length is \<Longrightarrow>
             post (body (is ! k) a) h (\<lambda>a' _. \<exists>r. a' = a @ [r] \<and> P k r)"
  shows "post (for_loop is body []) g
           (\<lambda>a _. length a = length is \<and> (\<forall>k<length is. P k (a ! k)))"
proof -
  let ?I = "\<lambda>k a (h::rng). length a = k \<and> (\<forall>j<k. P j (a ! j))"
  have "post (for_loop is body []) g (?I (length is))"
  proof (rule for_loop_post)
    show "?I 0 [] g" by simp
  next
    fix k a h assume k: "k < length is" and inv: "?I k a h"
    have "post (body (is ! k) a) h (\<lambda>a' _. \<exists>r. a' = a @ [r] \<and> P k r)"
      using assms[OF k] .
    then show "post (body (is ! k) a) h (?I (Suc k))"
    proof (rule post_mono)
      fix a' g' assume "\<exists>r. a' = a @ [r] \<and> P k r"
      then obtain r where r: "a' = a @ [r]" "P k r" by blast
      have "P j (a' ! j)" if "j < Suc k" for j
        using that r inv by (cases "j = k") (auto simp: nth_append)
      then show "?I (Suc k) a' g'" using r inv by simp
    qed
  qed
  then show ?thesis .
qed

lemma post_for_loop_chunks:
  assumes "\<And>i a h. i \<in> set is \<Longrightarrow>
             post (body i a) h (\<lambda>a' _. \<exists>rs. a' = a @ rs \<and> length rs = c \<and> (\<forall>r\<in>set rs. P r))"
  shows "post (for_loop is body acc) g
           (\<lambda>a _. \<exists>rs. a = acc @ rs \<and> length rs = c * length is \<and> (\<forall>r\<in>set rs. P r))"
proof -
  let ?I = "\<lambda>k a (h::rng). \<exists>rs. a = acc @ rs \<and> length rs = c * k \<and> (\<forall>r\<in>set rs. P r)"
  have "post (for_loop is body acc) g (?I (length is))"
  proof (rule for_loop_post)
    show "?I 0 acc g" by simp
  next
    fix k a h assume k: "k < length is" and "?I k a h"
    then obtain rs where rs: "a = acc @ rs" "length rs = c * k" "\<forall>r\<in>set rs. P r" by blast
    have "post (body (is ! k) a) h
            (\<lambda>a' _. \<exists>rs. a' = a @ rs \<and> length rs = c \<and> (\<forall>r\<in>set rs. P r))"
      using assms[of "is ! k" a h] k by simp
    then show "post (body (is ! k) a) h (?I (Suc k))"
    proof (rule post_mono)
      fix a' g' assume "\<exists>ts. a' = a @ ts \<and> length ts = c \<and> (\<forall>r\<in>set ts. P r)"
      then obtain ts where ts: "a' = a @ ts" "length ts = c" "\<forall>r\<in>set ts. P r" by blast
      have "a' = acc @ (rs @ ts) \<and> length (rs @ ts) = c * Suc k \<and> (\<forall>x\<in>set (rs @ ts). P x)"
        using rs ts by auto
      then show "?I (Suc k) a' g'" by blast
    qed
  qed
  then show ?thesis .
qed

lemma post_append_row:
  assumes "post m g (\<lambda>r _. P r)"
  shows "post (and_then m (\<lambda>r. ret (a @ [r]))) g (\<lambda>a' _. \<exists>r. a' = a @ [r] \<and> P r)"
  using assms by (auto elim!: post_mono)

lemma post_append_row_chunk:
  assumes "post m g (\<lambda>r _. P r)"
  shows "post (and_then m (\<lambda>r. ret (a @ [r]))) g
           (\<lambda>a' _. \<exists>rs. a' = a @ rs \<and> length rs = 1 \<and> (\<forall>r\<in>set rs. P r))"
proof -
  have "post m g (\<lambda>r _. \<exists>rs. a @ [r] = a @ rs \<and> length rs = 1 \<and> (\<forall>x\<in>set rs. P x))"
    using assms
  proof (rule post_mono)
    fix r g' assume "P r"
    then have "a @ [r] = a @ [r] \<and> length [r] = 1 \<and> (\<forall>x\<in>set [r]. P x)" by simp
    then show "\<exists>rs. a @ [r] = a @ rs \<and> length rs = 1 \<and> (\<forall>x\<in>set rs. P x)" by blast
  qed
  then show ?thesis by simp
qed

lemma length_range_py [simp]: "length (range_py n) = nat n"
  by (simp add: range_py_def)

lemma nth_range_py: "k < nat n \<Longrightarrow> range_py n ! k = int k"
  by (simp add: range_py_def)

lemma post_dict_get_eq [simp]:
  "post (dict_get d k) g Q = (case map_of d k of None \<Rightarrow> False | Some v \<Rightarrow> Q v g)"
  by (simp add: dict_get_def split: option.splits)

lemma post_list_get_eq:
  "0 \<le> i \<Longrightarrow> i < int (length xs) \<Longrightarrow> post (list_get xs i) g Q = Q (xs ! nat i) g"
  by (simp add: list_get_def)

section \<open>The customer rows\<close>

lemma customer_row_churn:
  "post (customer_row i) g (\<lambda>r g'. \<exists>c d. field r ''Churned'' = Some (CInt c) \<and>
      field r ''Days_Since_Last_Purchase'' = Some (CInt d) \<and>
      (c = 1) = (180 < d) \<and> (c = 0) = (d \<le> 180))"
  unfolding customer_row_def
  apply (simp add: Let_def)
  apply (rule post_randint, simp)
  apply (rule post_randint, simp)
  apply (rule post_uniform, simp)
  apply (rule post_randint, simp)
  apply (rule post_randint, simp)
  apply (rule post_randint, simp)
  apply (rule post_choice, simp)
  apply (simp add: field_def)
  done

text \<open>
  C5. For every \<open>n\<close> and every state of the random source, \<open>generate_customer_data n\<close>
  returns a frame, and in each of its rows \<open>Churned\<close> is 1 exactly when
  \<open>Days_Since_Last_Purchase\<close> is greater than 180, and 0 exactly when it is at most 180.
\<close>

theorem customers_churn_rule:
  "\<exists>df g'. generate_customer_data n g = Inr (df, g') \<and>
     (\<forall>r\<in>set (records df). \<exists>c d.
        field r ''Churned'' = Some (CInt c) \<and>
        field r ''Days_Since_Last_Purchase'' = Some (CInt d) \<and>
        (c = 1) = (180 < d) \<and> (c = 0) = (d \<le> 180))"
proof -
  let ?P = "\<lambda>r. \<exists>c d. field r ''Churned'' = Some (CInt c) \<and>
        field r ''Days_Since_Last_Purchase'' = Some (CInt d) \<and>
        (c = 1) = (180 < d) \<and> (c = 0) = (d \<le> 180)"
  have "post (for_loop (range_py n)
          (\<lambda>i data. and_then (customer_row i) (\<lambda>r. ret (data @ [r]))) []) g
          (\<lambda>a _. length a = length (range_py n) \<and> (\<forall>r\<in>set a. ?P r))"
    by (rule post_for_loop_all) (simp, rule post_mono[OF customer_row_churn], simp)
  then have "post (generate_customer_data n) g (\<lambda>df _. \<forall>r\<in>set (records df). ?P r)"
    unfolding generate_customer_data_def by (auto elim!: post_mono simp: DataFrame_def)
  then show ?thesis by (simp add: post_iff)
qed

text \<open>
  Two rows from a stream whose fourth number is 200 and whose other numbers are 100:
  the first customer has 200 days and is churned, the second has 100 days and is not.
\<close>

theorem customers_churn_rule_witness:
  "map_option
     (\<lambda>df. map (\<lambda>r. (field r ''Days_Since_Last_Purchase'', field r ''Churned'')) (records df))
     (returned (generate_customer_data 2 \<lparr>raw = (\<lambda>i. if i = 3 then 200 else 100), pos = 0\<rparr>))
   = Some [(Some (CInt 200), Some (CInt 1)), (Some (CInt 100), Some (CInt 0))]"
  using customers_churn_rule [of 2 "\<lparr>raw = (\<lambda>i. if i = 3 then 200 else 100), pos = 0\<rparr>"]
  by (simp add: returned_def generate_customer_data_def range_py_def upto.simps and_then_def
      customer_row_def randint_def randbelow_def next_raw_def ret_def uniform_def random_def
      choice_def DataFrame_def field_def Let_def)

section \<open>The sales rows\<close>

lemma sales_row_post:
  assumes "0 \<le> i" "i < int (length dates)"
  shows "post (sales_row dates i) g (\<lambda>r _. sales_row_ok dates i r)"
  unfolding sales_row_def
  apply (simp add: Let_def post_list_get_eq[OF assms])
  apply (rule post_choice, simp add: categories_def)
  apply (simp add: categories_def subcats_def)
  apply (elim disjE)
  apply simp_all
  apply ((rule post_choice post_uniform post_randint, simp add: regions_def segments_def discounts_def states_def)+,
         simp add: sales_row_ok_def field_def sales_columns_def)+
  done

lemma sales_dates_post:
  "post (for_loop (range_py n)
           (\<lambda>_ ds. and_then (randint 0 1095) (\<lambda>k. ret (ds @ [start + k]))) []) g
     (\<lambda>ds _. length ds = nat n)"
proof -
  have "post (for_loop (range_py n)
           (\<lambda>_ ds. and_then (randint 0 1095) (\<lambda>k. ret (ds @ [start + k]))) []) g
     (\<lambda>ds _. length ds = length (range_py n) \<and> (\<forall>k<length (range_py n). True))"
    by (rule post_for_loop_indexed) (simp, rule post_randint, simp_all)
  then show ?thesis by simp
qed

lemma sales_rows_post:
  assumes "length dates = nat n"
  shows "post (for_loop (range_py n)
           (\<lambda>i data. and_then (sales_row dates i) (\<lambda>r. ret (data @ [r]))) []) h
     (\<lambda>a _. length a = nat n \<and> (\<forall>k<nat n. sales_row_ok dates (int k) (a ! k)))"
proof -
  have "post (for_loop (range_py n)
           (\<lambda>i data. and_then (sales_row dates i) (\<lambda>r. ret (data @ [r]))) []) h
     (\<lambda>a _. length a = length (range_py n) \<and>
        (\<forall>k<length (range_py n). sales_row_ok dates (int k) (a ! k)))"
  proof (rule post_for_loop_indexed)
    fix k a h' assume k: "k < length (range_py n)"
    then have "post (sales_row dates (int k)) h' (\<lambda>r _. sales_row_ok dates (int k) r)"
      using assms by (intro sales_row_post) auto
    then show "post (and_then (sales_row dates (range_py n ! k)) (\<lambda>r. ret (a @ [r]))) h'
            (\<lambda>a' _. \<exists>r. a' = a @ [r] \<and> sales_row_ok dates (int k) r)"
      using k by (simp add: nth_range_py post_append_row)
  qed
  then show ?thesis by simp
qed

lemma generate_sales_data_post:
  "post (generate_sales_data n) g
     (\<lambda>df _. \<exists>dates. length dates = nat n \<and> length (records df) = nat n \<and>
         df = DataFrame (records df) \<and>
         (\<forall>k<nat n. sales_row_ok dates (int k) (records df ! k)))"
  unfolding generate_sales_data_def Let_def
  apply simp
  apply (rule post_mono[OF sales_dates_post])
  apply (rule post_mono[OF sales_rows_post], assumption)
  apply (simp add: DataFrame_def)
  apply blast
  done

text \<open>
  C7. For every \<open>n\<close> and every state of the random source, \<open>generate_sales_data n\<close>
  returns a frame, and in each of its rows the ship date is 1 to 7 days after the order
  date and the discount is one of 0, 0.10, 0.15, 0.20 and 0.25.
\<close>

theorem sales_ship_window_and_discount:
  "\<exists>df g'. generate_sales_data n g = Inr (df, g') \<and>
     (\<forall>r\<in>set (records df). \<exists>ordered shipped d.
        field r ''Order_Date'' = Some (CDate ordered) \<and>
        field r ''Ship_Date'' = Some (CDate shipped) \<and>
        1 \<le> shipped - ordered \<and> shipped - ordered \<le> 7 \<and>
        field r ''Discount'' = Some (CFloat d) \<and> d \<in> {0, 0.1, 0.15, 0.2, 0.25})"
proof -
  have "post (generate_sales_data n) g
     (\<lambda>df _. \<forall>r\<in>set (records df). \<exists>ordered shipped d.
        field r ''Order_Date'' = Some (CDate ordered) \<and>
        field r ''Ship_Date'' = Some (CDate shipped) \<and>
        1 \<le> shipped - ordered \<and> shipped - ordered \<le> 7 \<and>
        field r ''Discount'' = Some (CFloat d) \<and> d \<in> {0, 0.1, 0.15, 0.2, 0.25})"
  proof (rule post_mono[OF generate_sales_data_post])
    fix df :: data_frame and g' :: rng
    assume "\<exists>dates. length dates = nat n \<and> length (records df) = nat n \<and>
         df = DataFrame (records df) \<and>
         (\<forall>k<nat n. sales_row_ok dates (int k) (records df ! k))"
    then obtain dates where len: "length (records df) = nat n"
      and ok: "\<forall>k<nat n. sales_row_ok dates (int k) (records df ! k)" by blast
    show "\<forall>r\<in>set (records df). \<exists>ordered shipped d.
        field r ''Order_Date'' = Some (CDate ordered) \<and>
        field r ''Ship_Date'' = Some (CDate shipped) \<and>
        1 \<le> shipped - ordered \<and> shipped - ordered \<le> 7 \<and>
        field r ''Discount'' = Some (CFloat d) \<and> d \<in> {0, 0.1, 0.15, 0.2, 0.25}"
    proof
      fix r assume "r \<in> set (records df)"
      then obtain k where k: "k < nat n" "r = records df ! k"
        using len by (auto simp: in_set_conv_nth)
      then have "sales_row_ok dates (int k) r" using ok by simp
      then show "\<exists>ordered shipped d.
        field r ''Order_Date'' = Some (CDate ordered) \<and>
        field r ''Ship_Date'' = Some (CDate shipped) \<and>
        1 \<le> shipped - ordered \<and> shipped - ordered \<le> 7 \<and>
        field r ''Discount'' = Some (CFloat d) \<and> d \<in> {0, 0.1, 0.15, 0.2, 0.25}"
        by (auto simp: sales_row_ok_def discounts_def)
    qed
  qed
  then show ?thesis by (simp add: post_iff)
qed

lemma datetime_2022 [simp]: "datetime 2022 1 1 = 738156"
  by (simp add: datetime_def days_before_year_def days_before_month_def)

text \<open>
  One row from the stream 0, 1, 2, ...: ordered on 2022-01-01, shipped three days later,
  discount 0.15.
\<close>

theorem sales_ship_window_and_discount_witness:
  "map_option
     (\<lambda>df. map (\<lambda>r. (field r ''Order_Date'', field r ''Ship_Date'', field r ''Discount'')) (records df))
     (returned (generate_sales_data 1 \<lparr>raw = (\<lambda>i. i), pos = 0\<rparr>))
   = Some [(Some (CDate 738156), Some (CDate 738159), Some (CFloat 0.15))]"
  using sales_ship_window_and_discount [of 1 "\<lparr>raw = (\<lambda>i. i), pos = 0\<rparr>"]
  by (simp add: returned_def generate_sales_data_def range_py_def upto.simps and_then_def
      sales_row_def randint_def randbelow_def next_raw_def ret_def uniform_def random_def
      choice_def DataFrame_def field_def Let_def list_get_def dict_get_def
      categories_def subcats_def regions_def segments_def discounts_def states_def)

section \<open>Frames of no rows and of some rows\<close>

lemma fold_add_new: "distinct (acc @ ks) \<Longrightarrow>
   fold (\<lambda>k acc. if k \<in> set acc then acc else acc @ [k]) ks acc = acc @ ks"
  by (induction ks arbitrary: acc) auto

lemma fold_add_known: "set ks \<subseteq> set acc \<Longrightarrow>
   fold (\<lambda>k acc. if k \<in> set acc then acc else acc @ [k]) ks acc = acc"
  by (induction ks arbitrary: acc) auto

lemma fold_add_keys_same:
  "\<forall>r\<in>set data. map fst r = cols \<Longrightarrow> fold add_keys data cols = cols"
  by (induction data) (auto simp: add_keys_def fold_add_known)

lemma columns_DataFrame:
  assumes "data \<noteq> []" "\<forall>r\<in>set data. map fst r = cols" "distinct cols"
  shows "columns (DataFrame data) = cols"
proof -
  obtain r rs where d: "data = r # rs" using assms(1) by (cases data) auto
  have "add_keys r [] = cols"
    using assms(2,3) d fold_add_new[of "[]" cols] by (simp add: add_keys_def)
  then show ?thesis using assms(2) d by (simp add: DataFrame_def fold_add_keys_same)
qed

lemma DataFrame_Nil [simp]: "DataFrame [] = \<lparr>columns = [], records = []\<rparr>"
  by (simp add: DataFrame_def)

lemma range_py_neg [simp]: "n \<le> 0 \<Longrightarrow> range_py n = []"
  by (simp add: range_py_def)

lemma generate_sales_data_empty:
  "n \<le> 0 \<Longrightarrow> generate_sales_data n g = Inr (\<lparr>columns = [], records = []\<rparr>, g)"
  by (simp add: generate_sales_data_def and_then_def ret_def Let_def)

lemma generate_customer_data_empty:
  "n \<le> 0 \<Longrightarrow> generate_customer_data n g = Inr (\<lparr>columns = [], records = []\<rparr>, g)"
  by (simp add: generate_customer_data_def and_then_def ret_def)

text \<open>
  C3, as the code has it. For every \<open>n < 0\<close>, \<open>generate_sales_data n\<close> and
  \<open>generate_customer_data n\<close> signal no error: \<^verbatim>\<open>range(n)\<close> is empty, both loops run zero
  times, and the call returns the frame of no rows and no columns with the state of the
  random source unchanged, so no draw was taken.
\<close>

theorem negative_count_returns_empty:
  "n < 0 \<Longrightarrow>
     generate_sales_data n g = Inr (\<lparr>columns = [], records = []\<rparr>, g) \<and>
     generate_customer_data n g = Inr (\<lparr>columns = [], records = []\<rparr>, g)"
  by (simp add: generate_sales_data_empty generate_customer_data_empty)

text \<open>At \<open>n = -3\<close>, from a source that has already given five numbers.\<close>

theorem negative_count_returns_empty_witness:
  "(- 3 :: int) < 0 \<and>
   generate_sales_data (- 3) \<lparr>raw = (\<lambda>i. i), pos = 5\<rparr>
     = Inr (\<lparr>columns = [], records = []\<rparr>, \<lparr>raw = (\<lambda>i. i), pos = 5\<rparr>) \<and>
   generate_customer_data (- 3) \<lparr>raw = (\<lambda>i. i), pos = 5\<rparr>
     = Inr (\<lparr>columns = [], records = []\<rparr>, \<lparr>raw = (\<lambda>i. i), pos = 5\<rparr>)"
  using negative_count_returns_empty [of "- 3" "\<lparr>raw = (\<lambda>i. i), pos = 5\<rparr>"] by simp

text \<open>
  C3, as the claim states it, requires an error for a negative count. At \<open>n = -1\<close> neither
  generator returns one.
\<close>

theorem negative_count_not_rejected:
  "\<not> isl (generate_sales_data (- 1) \<lparr>raw = (\<lambda>i. i), pos = 0\<rparr>) \<and>
   \<not> isl (generate_customer_data (- 1) \<lparr>raw = (\<lambda>i. i), pos = 0\<rparr>)"
  by (simp add: generate_sales_data_empty generate_customer_data_empty)

text \<open>
  C4, as the code has it. \<open>generate_sales_data 0\<close> returns a frame with zero rows and no
  column: the column names come from the keys of the row dicts, and there is no row. For
  every \<open>n > 0\<close> the frame has the fourteen columns of the sales schema in their order.
\<close>

theorem sales_zero_rows_no_header:
  "generate_sales_data 0 g = Inr (\<lparr>columns = [], records = []\<rparr>, g) \<and>
   (0 < n \<longrightarrow> (\<exists>df g'. generate_sales_data n g = Inr (df, g') \<and>
      columns df = [''Order_ID'', ''Order_Date'', ''Ship_Date'', ''Category'', ''Sub_Category'',
        ''Product_Name'', ''Sales'', ''Quantity'', ''Discount'', ''Profit'', ''Region'', ''Segment'',
        ''Customer_ID'', ''State'']))"
proof (intro conjI impI)
  show "generate_sales_data 0 g = Inr (\<lparr>columns = [], records = []\<rparr>, g)"
    by (simp add: generate_sales_data_empty)
next
  assume n: "0 < n"
  have "post (generate_sales_data n) g (\<lambda>df _. columns df = sales_columns)"
  proof (rule post_mono[OF generate_sales_data_post])
    fix df :: data_frame and g' :: rng
    assume "\<exists>dates. length dates = nat n \<and> length (records df) = nat n \<and>
         df = DataFrame (records df) \<and>
         (\<forall>k<nat n. sales_row_ok dates (int k) (records df ! k))"
    then obtain dates where len: "length (records df) = nat n"
      and df: "df = DataFrame (records df)"
      and ok: "\<forall>k<nat n. sales_row_ok dates (int k) (records df ! k)" by blast
    have "records df \<noteq> []" using len n by auto
    moreover have "\<forall>r\<in>set (records df). map fst r = sales_columns"
      using ok len by (auto simp: in_set_conv_nth sales_row_ok_def)
    moreover have "distinct sales_columns" by (simp add: sales_columns_def)
    ultimately have "columns (DataFrame (records df)) = sales_columns"
      by (rule columns_DataFrame)
    then show "columns df = sales_columns" using df by simp
  qed
  then show "\<exists>df g'. generate_sales_data n g = Inr (df, g') \<and>
      columns df = [''Order_ID'', ''Order_Date'', ''Ship_Date'', ''Category'', ''Sub_Category'',
        ''Product_Name'', ''Sales'', ''Quantity'', ''Discount'', ''Profit'', ''Region'', ''Segment'',
        ''Customer_ID'', ''State'']"
    by (simp add: post_iff sales_columns_def)
qed

text \<open>One row from the stream 0, 1, 2, ...: the frame has one row and the fourteen columns.\<close>

theorem sales_zero_rows_no_header_witness:
  "map_option (\<lambda>df. (length (records df), columns df))
     (returned (generate_sales_data 1 \<lparr>raw = (\<lambda>i. i), pos = 0\<rparr>))
   = Some (1, [''Order_ID'', ''Order_Date'', ''Ship_Date'', ''Category'', ''Sub_Category'',
        ''Product_Name'', ''Sales'', ''Quantity'', ''Discount'', ''Profit'', ''Region'', ''Segment'',
        ''Customer_ID'', ''State''])"
  using sales_zero_rows_no_header [of "\<lparr>raw = (\<lambda>i. i), pos = 0\<rparr>" 1]
  by (simp add: returned_def generate_sales_data_def range_py_def upto.simps and_then_def
      sales_row_def randint_def randbelow_def next_raw_def ret_def uniform_def random_def
      choice_def DataFrame_def add_keys_def Let_def list_get_def dict_get_def
      categories_def subcats_def regions_def segments_def discounts_def states_def)

text \<open>
  C4, as the claim states it, requires the fourteen column names on the frame of
  \<open>generate_sales_data 0\<close>. The frame has none.
\<close>

theorem sales_zero_header_lost:
  "map_option columns (returned (generate_sales_data 0 \<lparr>raw = (\<lambda>i. i), pos = 0\<rparr>)) = Some [] \<and>
   map_option columns (returned (generate_sales_data 0 \<lparr>raw = (\<lambda>i. i), pos = 0\<rparr>))
     \<noteq> Some [''Order_ID'', ''Order_Date'', ''Ship_Date'', ''Category'', ''Sub_Category'',
        ''Product_Name'', ''Sales'', ''Quantity'', ''Discount'', ''Profit'', ''Region'', ''Segment'',
        ''Customer_ID'', ''State'']"
  by (simp add: generate_sales_data_empty returned_def)

section \<open>Rounding, the operations rows, the financial rows and the customer rows\<close>

lemma round_half_even_near: "\<bar>of_int (round_half_even y) - y\<bar> \<le> 1 / 2"
proof -
  have "of_int \<lfloor>y\<rfloor> \<le> y" "y < of_int \<lfloor>y\<rfloor> + 1" by linarith+
  then show ?thesis by (auto simp: round_half_even_def Let_def)
qed

lemma decimal_round_near: "\<bar>decimal_round x 2 - x\<bar> \<le> 0.005"
proof -
  have "\<bar>of_int (round_half_even (x * 100)) - x * 100\<bar> \<le> 1 / 2"
    by (rule round_half_even_near)
  then show ?thesis by (simp add: decimal_round_def field_simps abs_le_iff)
qed

lemma bit_length_bounds: "0 < n \<Longrightarrow> 2 ^ (bit_length n - 1) \<le> n \<and> n < 2 ^ bit_length n"
proof (induction n rule: bit_length.induct)
  case (1 n)
  show ?case
  proof (cases "n div 2 = 0")
    case True
    then have "n = 1" using "1.prems" by presburger
    then show ?thesis by (simp add: bit_length.simps)
  next
    case False
    then have ih: "2 ^ (bit_length (n div 2) - 1) \<le> n div 2" "n div 2 < 2 ^ bit_length (n div 2)"
      using "1.IH" "1.prems" by simp_all
    have pos: "0 < bit_length (n div 2)" using False by (subst bit_length.simps) simp
    have bl: "bit_length n = Suc (bit_length (n div 2))"
      using "1.prems" by (subst bit_length.simps) simp
    have "(2::nat) ^ bit_length (n div 2) = 2 * 2 ^ (bit_length (n div 2) - 1)"
      using pos by (cases "bit_length (n div 2)") simp_all
    then have "(2::nat) ^ bit_length (n div 2) \<le> 2 * (n div 2)" using ih(1) by simp
    also have "\<dots> \<le> n" by simp
    finally have lo: "(2::nat) ^ (bit_length n - 1) \<le> n" using bl by simp
    have "n < 2 * (n div 2) + 2" by presburger
    also have "\<dots> \<le> 2 * 2 ^ bit_length (n div 2)" using ih(2) by simp
    finally have "n < 2 ^ bit_length n" using bl by simp
    then show ?thesis using lo by simp
  qed
qed

lemma pow2_pos [simp]: "0 < pow2 e"
  by (simp add: pow2_def)

lemma pow2_add: "pow2 (a + b) = pow2 a * pow2 b"
proof -
  have "pow2 e = 2 powr (of_int e)" for e
    by (auto simp: pow2_def powr_realpow[symmetric] powr_minus divide_simps)
  then show ?thesis by (simp add: powr_add)
qed

lemma pow2_52: "pow2 (e - 52) = pow2 e / 2 ^ 52"
  using pow2_add[of e "- 52"] by (simp add: pow2_def)

text \<open>\<open>exponent x\<close> names the binade of \<open>x\<close>: \<open>2^e \<le> |x| < 2^(e+1)\<close>.\<close>

lemma exponent_lower: "x \<noteq> 0 \<Longrightarrow> pow2 (exponent x) \<le> \<bar>x\<bar>"
proof -
  assume x: "x \<noteq> 0"
  let ?a = "\<bar>x\<bar>"
  have a: "0 < ?a" using x by simp
  show ?thesis
  proof (cases "1 \<le> ?a")
    case True
    let ?n = "nat \<lfloor>?a\<rfloor>"
    have n: "0 < ?n" using True by simp
    have "2 ^ (bit_length ?n - 1) \<le> ?n" using bit_length_bounds[OF n] by simp
    then have "(2::real) ^ (bit_length ?n - 1) \<le> real ?n"
      by (metis of_nat_le_iff of_nat_numeral of_nat_power)
    also have "real ?n \<le> ?a" using True by (simp add: of_nat_nat)
    finally have "2 ^ (bit_length ?n - 1) \<le> ?a" .
    moreover have "0 < bit_length ?n" using n by (subst bit_length.simps) simp
    ultimately show ?thesis using True
      by (simp add: exponent_def pow2_def Let_def nat_diff_distrib')
  next
    case False
    let ?b = "bit_length (nat \<lfloor>1 / ?a\<rfloor>)"
    let ?n = "nat \<lfloor>1 / ?a\<rfloor>"
    have "1 \<le> 1 / ?a" using False a by simp
    then have n: "0 < ?n" by simp
    have bpos: "0 < ?b" using n by (subst bit_length.simps) simp
    show ?thesis
    proof (cases "?a * 2 ^ (?b - 1) = 1")
      case True
      then have e: "exponent x = 1 - int ?b" using False by (simp add: exponent_def Let_def)
      have "1 - int ?b \<le> 0" using bpos by simp
      then have "pow2 (1 - int ?b) = 1 / 2 ^ (?b - 1)"
        using bpos by (auto simp: pow2_def nat_diff_distrib' dest: antisym)
      also have "\<dots> = ?a" using True by (simp add: field_simps)
      finally show ?thesis using e by simp
    next
      case neq: False
      then have e: "exponent x = - int ?b" using False by (simp add: exponent_def Let_def)
      have "?n < 2 ^ ?b" using bit_length_bounds[OF n] by (rule conjunct2)
      then have "?n + 1 \<le> 2 ^ ?b" by (simp only: Suc_eq_plus1[symmetric] Suc_le_eq)
      then have "real (?n + 1) \<le> 2 ^ ?b"
        by (metis of_nat_le_iff of_nat_numeral of_nat_power)
      moreover have "1 / ?a < real (?n + 1)" using \<open>1 \<le> 1 / ?a\<close> by (simp add: of_nat_nat) linarith
      ultimately have "1 / ?a \<le> 2 ^ ?b" by linarith
      then have "1 / 2 ^ ?b \<le> ?a" using a by (simp add: field_simps)
      then show ?thesis using e bpos by (simp add: pow2_def)
    qed
  qed
qed

lemma exponent_upper: "x \<noteq> 0 \<Longrightarrow> \<bar>x\<bar> < 2 * pow2 (exponent x)"
proof -
  assume x: "x \<noteq> 0"
  let ?a = "\<bar>x\<bar>"
  have a: "0 < ?a" using x by simp
  show ?thesis
  proof (cases "1 \<le> ?a")
    case True
    let ?n = "nat \<lfloor>?a\<rfloor>"
    have n: "0 < ?n" using True by simp
    have bpos: "0 < bit_length ?n" using n by (subst bit_length.simps) simp
    have "?n < 2 ^ bit_length ?n" using bit_length_bounds[OF n] by (rule conjunct2)
    then have "?n + 1 \<le> 2 ^ bit_length ?n" by (simp only: Suc_eq_plus1[symmetric] Suc_le_eq)
    then have "real (?n + 1) \<le> 2 ^ bit_length ?n"
      by (metis of_nat_le_iff of_nat_numeral of_nat_power)
    moreover have "?a < real (?n + 1)" using True by (simp add: of_nat_nat) linarith
    ultimately have "?a < 2 ^ bit_length ?n" by linarith
    moreover have "(2::real) ^ bit_length ?n = 2 * 2 ^ (bit_length ?n - 1)"
      using bpos by (cases "bit_length ?n") simp_all
    ultimately show ?thesis using True bpos
      by (simp add: exponent_def pow2_def Let_def nat_diff_distrib')
  next
    case False
    let ?n = "nat \<lfloor>1 / ?a\<rfloor>"
    let ?b = "bit_length ?n"
    have one: "1 \<le> 1 / ?a" using False a by simp
    then have n: "0 < ?n" by simp
    have bpos: "0 < ?b" using n by (subst bit_length.simps) simp
    show ?thesis
    proof (cases "?a * 2 ^ (?b - 1) = 1")
      case True
      then have e: "exponent x = 1 - int ?b" using False by (simp add: exponent_def Let_def)
      have "1 - int ?b \<le> 0" using bpos by simp
      then have "pow2 (1 - int ?b) = 1 / 2 ^ (?b - 1)"
        using bpos by (auto simp: pow2_def nat_diff_distrib' dest: antisym)
      also have "\<dots> = ?a" using True by (simp add: field_simps)
      finally show ?thesis using e a by simp
    next
      case neq: False
      then have e: "exponent x = - int ?b" using False by (simp add: exponent_def Let_def)
      have "2 ^ (?b - 1) \<le> ?n" using bit_length_bounds[OF n] by (rule conjunct1)
      then have "(2::real) ^ (?b - 1) \<le> real ?n"
        by (metis of_nat_le_iff of_nat_numeral of_nat_power)
      also have "real ?n \<le> 1 / ?a" using one by (simp add: of_nat_nat)
      finally have "?a * 2 ^ (?b - 1) \<le> 1" using a by (simp add: field_simps)
      then have lt: "?a * 2 ^ (?b - 1) < 1" using neq by linarith
      have "(2::real) ^ ?b = 2 * 2 ^ (?b - 1)" using bpos by (cases ?b) simp_all
      then have "2 * pow2 (- int ?b) = 1 / 2 ^ (?b - 1)" using bpos by (simp add: pow2_def)
      moreover have "?a < 1 / 2 ^ (?b - 1)" using lt by (simp add: field_simps)
      ultimately show ?thesis using e by simp
    qed
  qed
qed

text \<open>Rounding to a double moves a number by at most \<open>2^-53\<close> of its size.\<close>

lemma to_double_near: "\<bar>to_double y - y\<bar> \<le> \<bar>y\<bar> / 2 ^ 53"
proof (cases "y = 0")
  case True
  then show ?thesis by (simp add: to_double_def)
next
  case False
  let ?q = "pow2 (exponent y - 52)"
  have q: "0 < ?q" by simp
  then have qn: "?q \<noteq> 0" by linarith
  have "\<bar>of_int (round_half_even (y / ?q)) - y / ?q\<bar> \<le> 1 / 2" by (rule round_half_even_near)
  then have "\<bar>of_int (round_half_even (y / ?q)) - y / ?q\<bar> * ?q \<le> 1 / 2 * ?q"
    using less_imp_le[OF q] by (rule mult_right_mono)
  moreover have "(of_int (round_half_even (y / ?q)) - y / ?q) * ?q
      = of_int (round_half_even (y / ?q)) * ?q - y"
    using qn by (simp add: left_diff_distrib)
  then have "\<bar>of_int (round_half_even (y / ?q)) - y / ?q\<bar> * ?q
      = \<bar>of_int (round_half_even (y / ?q)) * ?q - y\<bar>"
    using q by (metis abs_mult abs_of_pos)
  ultimately have "\<bar>to_double y - y\<bar> \<le> ?q / 2" using False by (simp add: to_double_def Let_def)
  also have "?q / 2 = pow2 (exponent y) / 2 ^ 53" by (simp add: pow2_52)
  also have "\<dots> \<le> \<bar>y\<bar> / 2 ^ 53" using exponent_lower[OF False] by (simp add: divide_right_mono)
  finally show ?thesis .
qed

text \<open>
  For amounts up to a million the stored double is within \<open>2 * 10^-10\<close> of the decimal
  it was rounded to, and within \<open>0.0050000002\<close> of the amount.
\<close>

lemma py_round_decimal_near:
  assumes "\<bar>x\<bar> \<le> 1000000"
  shows "\<bar>py_round x 2 - decimal_round x 2\<bar> \<le> 0.0000000002"
proof -
  have "\<bar>decimal_round x 2\<bar> \<le> 1000000.005"
    using decimal_round_near[of x] assms unfolding abs_le_iff by simp
  then have "\<bar>decimal_round x 2\<bar> / 2 ^ 53 \<le> 1000000.005 / 2 ^ 53"
    by (simp add: divide_right_mono)
  then have "\<bar>to_double (decimal_round x 2) - decimal_round x 2\<bar> \<le> 0.0000000002"
    using to_double_near[of "decimal_round x 2"] by simp
  then show ?thesis by (simp add: py_round_def)
qed


lemma py_int_floor: "0 \<le> x \<Longrightarrow> 0 \<le> py_int x \<and> of_int (py_int x) \<le> x"
  by (simp add: py_int_def)

lemma operations_row_post:
  "post (operations_row date shift) g (\<lambda>r _. operations_row_ok r)"
proof -
  have defects: "0 \<le> py_int (of_int p * rate) \<and> py_int (of_int p * rate) \<le> p"
    if "800 \<le> p" "0.01 \<le> rate" "rate \<le> 0.05" for p :: int and rate :: real
  proof -
    have p: "(0::real) \<le> of_int p" using that by simp
    have nn: "0 \<le> of_int p * rate" using that p by simp
    have "of_int p * rate \<le> of_int p * 1" using that p by (intro mult_left_mono) auto
    then have "of_int (py_int (of_int p * rate)) \<le> (of_int p :: real)"
      using py_int_floor[OF nn] by linarith
    then show ?thesis using py_int_floor[OF nn] by simp
  qed
  show ?thesis
    unfolding operations_row_def
    apply (simp add: Let_def)
    apply (rule post_randint, simp)
    apply (rule post_uniform, simp)
    apply (rule post_randint, simp)
    apply (rule post_truediv, simp)
    apply (rule post_uniform, simp)
    apply (rule post_randint, simp)
    apply (rule post_randint, simp)
    apply (simp add: operations_row_ok_def field_def defects)
    done
qed

lemma seasonal_lower:
  "450000 \<le> base_revenue * (1 + 0.015 * real i) * (1 + 0.1 * sin x)"
proof -
  have s: "0.9 \<le> 1 + 0.1 * sin x" using sin_ge_minus_one[of x] by linarith
  have t: "500000 \<le> base_revenue * (1 + 0.015 * real i)" by (simp add: base_revenue_def)
  have "500000 * 0.9 \<le> base_revenue * (1 + 0.015 * real i) * (1 + 0.1 * sin x)"
    using s t by (intro mult_mono) auto
  then show ?thesis by simp
qed

lemma seasonal_upper:
  "base_revenue * (1 + 0.015 * real i) * (1 + 0.1 * sin x) \<le> 550000 * (1 + 0.015 * real i)"
proof -
  have s: "1 + 0.1 * sin x \<le> 1.1" using sin_le_one[of x] by linarith
  have t: "0 \<le> base_revenue * (1 + 0.015 * real i)" by (simp add: base_revenue_def)
  have "base_revenue * (1 + 0.015 * real i) * (1 + 0.1 * sin x)
          \<le> base_revenue * (1 + 0.015 * real i) * 1.1"
    using s t by (rule mult_left_mono)
  then show ?thesis by (simp add: base_revenue_def)
qed

lemma financial_row_post:
  "post (financial_row i month) g (\<lambda>r _. financial_row_ok i month r)"
proof -
  have ok: "financial_row_ok i month
     [(''Month'', CDate month),
      (''Revenue'', CFloat (py_round rev 2)),
      (''COGS'', CFloat (py_round (rev * c) 2)),
      (''Operating_Expenses'', CFloat (py_round (rev * ox) 2)),
      (''Gross_Profit'', CFloat (py_round (rev - rev * c) 2)),
      (''Net_Profit'', CFloat (py_round (rev - rev * c - rev * ox) 2)),
      (''Budget_Revenue'', CFloat b),
      (''Cash_Flow'', CFloat cf)]"
    if "430000 \<le> rev" "rev \<le> 550000 * (1 + 0.015 * real i) + 30000"
      "0.55 \<le> c" "c \<le> 0.65" "0.2 \<le> ox" "ox \<le> 0.3" for rev c ox b cf :: real
  proof -
    have r: "0 \<le> rev" using that by simp
    have "rev * 0.55 \<le> rev * c" "rev * c \<le> rev * 0.65" "rev * 0.2 \<le> rev * ox" "rev * ox \<le> rev * 0.3"
      using that r by (auto intro!: mult_left_mono)
    then have "0.55 * rev \<le> rev * c \<and> rev * c \<le> 0.65 * rev \<and> 0.2 * rev \<le> rev * ox \<and> rev * ox \<le> 0.3 * rev"
      by (simp add: mult.commute)
    then show ?thesis unfolding financial_row_ok_def field_def using that(1,2)
      by (intro exI[of _ rev] exI[of _ "rev * c"] exI[of _ "rev * ox"]) simp
  qed
  show ?thesis
    unfolding financial_row_def
    apply (simp add: Let_def)
    apply (rule post_uniform, simp)
    apply (rule post_uniform, simp)
    apply (rule post_uniform, simp)
    apply (rule post_uniform, simp)
    apply (rule post_uniform, simp)
    apply (rule ok)
    apply (insert seasonal_lower[of i "2 * pi * real i / 12"]
                  seasonal_upper[of i "2 * pi * real i / 12"])
    apply simp_all
    done
qed

lemma datetime_2023: "datetime 2023 1 1 = 738521"
  by (simp add: datetime_def days_before_year_def days_before_month_def)

lemma datetime_2024_end: "datetime 2024 12 31 = 739251"
  by (simp add: datetime_def days_before_year_def days_before_month_def days_in_month_def
      is_leap_def upto.simps)

lemma days_eval: "length (date_range_D (datetime 2023 1 1) (datetime 2024 12 31)) = 731"
  by (simp add: date_range_D_def datetime_2023 datetime_2024_end)

lemma months_eval:
  "date_range_MS (2022, 1, 1) (2024, 12, 31) =
     [738156, 738187, 738215, 738246, 738276, 738307, 738337, 738368, 738399, 738429, 738460, 738490,
      738521, 738552, 738580, 738611, 738641, 738672, 738702, 738733, 738764, 738794, 738825, 738855,
      738886, 738917, 738946, 738977, 739007, 739038, 739068, 739099, 739130, 739160, 739191, 739221]"
  by code_simp

lemma generate_operations_data_post:
  "post (generate_operations_data n) g
     (\<lambda>df _. length (records df) = 3 * length (date_range_D (datetime 2023 1 1) (datetime 2024 12 31)) \<and>
        (\<forall>r\<in>set (records df). operations_row_ok r))"
proof -
  let ?dates = "date_range_D (datetime 2023 1 1) (datetime 2024 12 31)"
  let ?shifts = "[''Morning'', ''Evening'', ''Night'']"
  have inner: "post (for_loop ?shifts
        (\<lambda>shift data. and_then (operations_row date shift) (\<lambda>r. ret (data @ [r]))) a) h
      (\<lambda>a' _. \<exists>rs. a' = a @ rs \<and> length rs = 3 \<and> (\<forall>r\<in>set rs. operations_row_ok r))"
    for date a h
  proof -
    have "post (for_loop ?shifts
        (\<lambda>shift data. and_then (operations_row date shift) (\<lambda>r. ret (data @ [r]))) a) h
      (\<lambda>a' _. \<exists>rs. a' = a @ rs \<and> length rs = 1 * length ?shifts \<and>
          (\<forall>r\<in>set rs. operations_row_ok r))"
      by (rule post_for_loop_chunks, rule post_append_row_chunk, rule operations_row_post)
    then show ?thesis by (simp add: eval_nat_numeral)
  qed
  have "post (for_loop ?dates
        (\<lambda>date data. for_loop ?shifts
           (\<lambda>shift data. and_then (operations_row date shift) (\<lambda>r. ret (data @ [r]))) data) []) g
      (\<lambda>a _. \<exists>rs. a = [] @ rs \<and> length rs = 3 * length ?dates \<and>
          (\<forall>r\<in>set rs. operations_row_ok r))"
    by (rule post_for_loop_chunks, rule inner)
  then show ?thesis
    unfolding generate_operations_data_def Let_def
    by (auto elim!: post_mono simp: DataFrame_def)
qed

lemma generate_financial_data_post:
  "post generate_financial_data g
     (\<lambda>df _. length (records df) = length (date_range_MS (2022, 1, 1) (2024, 12, 31)) \<and>
        (\<forall>k<length (date_range_MS (2022, 1, 1) (2024, 12, 31)).
           financial_row_ok k (date_range_MS (2022, 1, 1) (2024, 12, 31) ! k) (records df ! k)))"
proof -
  let ?months = "date_range_MS (2022, 1, 1) (2024, 12, 31)"
  have "post (for_loop (enumerate 0 ?months)
        (\<lambda>(i, month) data. and_then (financial_row i month) (\<lambda>r. ret (data @ [r]))) []) g
      (\<lambda>a _. length a = length (enumerate 0 ?months) \<and>
         (\<forall>k<length (enumerate 0 ?months). financial_row_ok k (?months ! k) (a ! k)))"
  proof (rule post_for_loop_indexed)
    fix k a h assume "k < length (enumerate 0 ?months)"
    then have "enumerate 0 ?months ! k = (k, ?months ! k)" by (simp add: nth_enumerate_eq)
    then show "post ((case enumerate 0 ?months ! k of
             (i, month) \<Rightarrow> \<lambda>data. and_then (financial_row i month) (\<lambda>r. ret (data @ [r]))) a) h
          (\<lambda>a' _. \<exists>r. a' = a @ [r] \<and> financial_row_ok k (?months ! k) r)"
      using post_append_row[OF financial_row_post] by simp
  qed
  then show ?thesis
    unfolding generate_financial_data_def Let_def
    by (auto elim!: post_mono simp: DataFrame_def)
qed

lemma customer_row_id:
  "post (customer_row i) g
     (\<lambda>r _. field r ''Customer_ID'' = Some (CStr (''CUST-'' @ py_str (i + 1000))))"
  unfolding customer_row_def
  apply (simp add: Let_def)
  apply (rule post_randint, simp)
  apply (rule post_randint, simp)
  apply (rule post_uniform, simp)
  apply (rule post_randint, simp)
  apply (rule post_randint, simp)
  apply (rule post_randint, simp)
  apply (rule post_choice, simp)
  apply (simp add: field_def)
  done

lemma generate_customer_data_post:
  "post (generate_customer_data n) g
     (\<lambda>df _. length (records df) = nat n \<and>
        (\<forall>k<nat n. field (records df ! k) ''Customer_ID''
                       = Some (CStr (''CUST-'' @ py_str (int k + 1000)))))"
proof -
  have "post (for_loop (range_py n)
          (\<lambda>i data. and_then (customer_row i) (\<lambda>r. ret (data @ [r]))) []) g
      (\<lambda>a _. length a = length (range_py n) \<and>
         (\<forall>k<length (range_py n). field (a ! k) ''Customer_ID''
                       = Some (CStr (''CUST-'' @ py_str (int k + 1000)))))"
  proof (rule post_for_loop_indexed)
    fix k a h assume "k < length (range_py n)"
    then have "range_py n ! k = int k" by (simp add: nth_range_py)
    then show "post (and_then (customer_row (range_py n ! k)) (\<lambda>r. ret (a @ [r]))) h
       (\<lambda>a' _. \<exists>r. a' = a @ [r] \<and>
           field r ''Customer_ID'' = Some (CStr (''CUST-'' @ py_str (int k + 1000))))"
      using post_append_row[OF customer_row_id] by simp
  qed
  then show ?thesis
    unfolding generate_customer_data_def
    by (auto elim!: post_mono simp: DataFrame_def)
qed

section \<open>How many rows each generator returns\<close>

lemma for_loop_appends:
  assumes "\<And>i a h. post (body i a) h (\<lambda>a' _. \<exists>rs. a' = a @ rs)"
  shows "post (for_loop is body acc) g (\<lambda>a _. \<exists>rs. a = acc @ rs)"
proof -
  let ?I = "\<lambda>(k::nat) a (h::rng). \<exists>rs. a = acc @ rs"
  have "post (for_loop is body acc) g (?I (length is))"
  proof (rule for_loop_post)
    show "?I 0 acc g" by simp
  next
    fix k a h assume "k < length is" and "?I k a h"
    then obtain rs where rs: "a = acc @ rs" by blast
    show "post (body (is ! k) a) h (?I (Suc k))"
    proof (rule post_mono[OF assms[of "is ! k" a h]])
      fix a' g' assume "\<exists>ts. a' = a @ ts"
      then obtain ts where "a' = a @ ts" by blast
      then have "a' = acc @ (rs @ ts)" using rs by simp
      then show "\<exists>rs. a' = acc @ rs" by blast
    qed
  qed
  then show ?thesis .
qed

lemma for_loop_first:
  assumes "\<And>i a h. post (body i a) h (\<lambda>a' _. \<exists>rs. a' = a @ rs)"
    and "body i0 acc g = Inr (a1, g1)"
  shows "post (for_loop (i0 # is) body acc) g (\<lambda>a _. \<exists>rs. a = a1 @ rs)"
proof -
  have "post (for_loop is body a1) g1 (\<lambda>a _. \<exists>rs. a = a1 @ rs)"
    using assms(1) by (rule for_loop_appends)
  then show ?thesis using assms(2) by (simp add: post_def)
qed

lemma post_True_appends:
  assumes "post m g (\<lambda>r _. P r)"
  shows "post (and_then m (\<lambda>r. ret (a @ [r]))) g (\<lambda>a' _. \<exists>rs. a' = a @ rs)"
  using assms by (auto elim!: post_mono)

lemma sales_count:
  "\<exists>df g'. generate_sales_data n g = Inr (df, g') \<and> length (records df) = nat n"
proof -
  have "post (generate_sales_data n) g (\<lambda>df _. length (records df) = nat n)"
    by (rule post_mono[OF generate_sales_data_post]) blast
  then show ?thesis by (simp add: post_iff)
qed

lemma customers_count:
  "\<exists>df g'. generate_customer_data n g = Inr (df, g') \<and> length (records df) = nat n"
proof -
  have "post (generate_customer_data n) g (\<lambda>df _. length (records df) = nat n)"
    by (rule post_mono[OF generate_customer_data_post]) blast
  then show ?thesis by (simp add: post_iff)
qed

lemma operations_count:
  "\<exists>df g'. generate_operations_data m g = Inr (df, g') \<and>
      length (records df) = 3 * length (date_range_D (datetime 2023 1 1) (datetime 2024 12 31)) \<and>
      length (records df) = 3 * 731"
proof -
  have "post (generate_operations_data m) g (\<lambda>df _.
      length (records df) = 3 * length (date_range_D (datetime 2023 1 1) (datetime 2024 12 31)) \<and>
      length (records df) = 3 * 731)"
  proof (rule post_mono[OF generate_operations_data_post])
    fix df :: data_frame and g' :: rng
    assume "length (records df)
              = 3 * length (date_range_D (datetime 2023 1 1) (datetime 2024 12 31)) \<and>
            (\<forall>r\<in>set (records df). operations_row_ok r)"
    then show "length (records df)
                 = 3 * length (date_range_D (datetime 2023 1 1) (datetime 2024 12 31)) \<and>
               length (records df) = 3 * 731"
      using days_eval by simp
  qed
  then show ?thesis by (simp only: post_iff)
qed

lemma months_are_calendar:
  "date_range_MS (2022, 1, 1) (2024, 12, 31)
     = concat (map (\<lambda>y. map (\<lambda>m. datetime y m 1) [1, 2, 3, 4, 5, 6, 7, 8, 9, 10, 11, 12])
         [2022, 2023, 2024])"
  by code_simp

lemma months_ascending: "sorted_wrt (<) (date_range_MS (2022, 1, 1) (2024, 12, 31))"
  by (simp add: months_eval)

lemma financial_count:
  "\<exists>df g'. generate_financial_data g = Inr (df, g') \<and>
      map (\<lambda>r. field r ''Month'') (records df)
        = map (\<lambda>d. Some (CDate d)) (date_range_MS (2022, 1, 1) (2024, 12, 31)) \<and>
      length (records df) = 36"
proof -
  let ?months = "date_range_MS (2022, 1, 1) (2024, 12, 31)"
  have len: "length ?months = 36" by (simp add: months_eval)
  have "post generate_financial_data g
     (\<lambda>df _. map (\<lambda>r. field r ''Month'') (records df) = map (\<lambda>d. Some (CDate d)) ?months \<and>
        length (records df) = 36)"
  proof (rule post_mono[OF generate_financial_data_post])
    fix df :: data_frame and g' :: rng
    assume a: "length (records df) = length ?months \<and>
        (\<forall>k<length ?months. financial_row_ok k (?months ! k) (records df ! k))"
    have "map (\<lambda>r. field r ''Month'') (records df) = map (\<lambda>d. Some (CDate d)) ?months"
    proof (rule nth_equalityI)
      show "length (map (\<lambda>r. field r ''Month'') (records df))
              = length (map (\<lambda>d. Some (CDate d)) ?months)" using a by simp
    next
      fix k assume "k < length (map (\<lambda>r. field r ''Month'') (records df))"
      then have k: "k < length ?months" using a by simp
      then have "financial_row_ok k (?months ! k) (records df ! k)" using a by blast
      then have "field (records df ! k) ''Month'' = Some (CDate (?months ! k))"
        unfolding financial_row_ok_def by blast
      then show "map (\<lambda>r. field r ''Month'') (records df) ! k
               = map (\<lambda>d. Some (CDate d)) ?months ! k"
        using k a by (simp only: nth_map)
    qed
    then show "map (\<lambda>r. field r ''Month'') (records df) = map (\<lambda>d. Some (CDate d)) ?months \<and>
        length (records df) = 36" using a len by (simp only: simp_thms)
  qed
  then show ?thesis by (simp only: post_iff)
qed

text \<open>
  C8. For every \<open>n \<ge> 0\<close> and every state of the random source, \<open>generate_sales_data n\<close>
  and \<open>generate_customer_data n\<close> return frames of exactly \<open>n\<close> rows;
  \<open>generate_operations_data\<close> returns three rows for each day of 2023-01-01 to
  2024-12-31, which are 731 days; \<open>generate_financial_data\<close> returns 36 rows whose
  \<open>Month\<close> column is, in order, the list of the first days of the months of 2022, 2023
  and 2024, and that list is strictly ascending.
\<close>

theorem row_count_laws:
  "(0 \<le> n \<longrightarrow> (\<exists>df g'. generate_sales_data n g = Inr (df, g') \<and> int (length (records df)) = n)) \<and>
   (0 \<le> n \<longrightarrow> (\<exists>df g'. generate_customer_data n g = Inr (df, g') \<and> int (length (records df)) = n)) \<and>
   (\<exists>df g'. generate_operations_data m g = Inr (df, g') \<and>
      length (records df) = 3 * length (date_range_D (datetime 2023 1 1) (datetime 2024 12 31)) \<and>
      length (records df) = 3 * 731) \<and>
   (\<exists>df g'. generate_financial_data g = Inr (df, g') \<and>
      map (\<lambda>r. field r ''Month'') (records df)
        = map (\<lambda>d. Some (CDate d)) (date_range_MS (2022, 1, 1) (2024, 12, 31)) \<and>
      length (records df) = 36) \<and>
   date_range_MS (2022, 1, 1) (2024, 12, 31)
     = concat (map (\<lambda>y. map (\<lambda>m. datetime y m 1) [1, 2, 3, 4, 5, 6, 7, 8, 9, 10, 11, 12])
         [2022, 2023, 2024]) \<and>
   sorted_wrt (<) (date_range_MS (2022, 1, 1) (2024, 12, 31))"
proof (intro conjI impI)
  assume n: "0 \<le> n"
  obtain df g' where "generate_sales_data n g = Inr (df, g')" "length (records df) = nat n"
    using sales_count[of n g] by blast
  then have "generate_sales_data n g = Inr (df, g') \<and> int (length (records df)) = n"
    using n by simp
  then show "\<exists>df g'. generate_sales_data n g = Inr (df, g') \<and> int (length (records df)) = n"
    by blast
next
  assume n: "0 \<le> n"
  obtain df g' where "generate_customer_data n g = Inr (df, g')" "length (records df) = nat n"
    using customers_count[of n g] by blast
  then have "generate_customer_data n g = Inr (df, g') \<and> int (length (records df)) = n"
    using n by simp
  then show "\<exists>df g'. generate_customer_data n g = Inr (df, g') \<and> int (length (records df)) = n"
    by blast
next
  show "\<exists>df g'. generate_operations_data m g = Inr (df, g') \<and>
      length (records df) = 3 * length (date_range_D (datetime 2023 1 1) (datetime 2024 12 31)) \<and>
      length (records df) = 3 * 731"
    by (rule operations_count)
next
  show "\<exists>df g'. generate_financial_data g = Inr (df, g') \<and>
      map (\<lambda>r. field r ''Month'') (records df)
        = map (\<lambda>d. Some (CDate d)) (date_range_MS (2022, 1, 1) (2024, 12, 31)) \<and>
      length (records df) = 36"
    by (rule financial_count)
next
  show "date_range_MS (2022, 1, 1) (2024, 12, 31)
     = concat (map (\<lambda>y. map (\<lambda>m. datetime y m 1) [1, 2, 3, 4, 5, 6, 7, 8, 9, 10, 11, 12])
         [2022, 2023, 2024])"
    by (rule months_are_calendar)
next
  show "sorted_wrt (<) (date_range_MS (2022, 1, 1) (2024, 12, 31))"
    by (rule months_ascending)
qed

text \<open>At \<open>n = 2\<close>, from the stream 0, 1, 2, ...: two sales rows and two customer rows.\<close>

theorem row_count_laws_witness:
  "(0::int) \<le> 2 \<and>
   map_option (\<lambda>df. length (records df))
     (returned (generate_sales_data 2 \<lparr>raw = (\<lambda>i. i), pos = 0\<rparr>)) = Some 2 \<and>
   map_option (\<lambda>df. length (records df))
     (returned (generate_customer_data 2 \<lparr>raw = (\<lambda>i. i), pos = 0\<rparr>)) = Some 2"
proof -
  have h: "(0::int) \<le> 2" by simp
  note laws = row_count_laws [of 2 "\<lparr>raw = (\<lambda>i. i), pos = 0\<rparr>" 2000]
  obtain df g' where "generate_sales_data 2 \<lparr>raw = (\<lambda>i. i), pos = 0\<rparr> = Inr (df, g')"
    "int (length (records df)) = 2" using laws h by blast
  then have s: "map_option (\<lambda>df. length (records df))
     (returned (generate_sales_data 2 \<lparr>raw = (\<lambda>i. i), pos = 0\<rparr>)) = Some 2"
    by (simp add: returned_def)
  obtain dc gc where "generate_customer_data 2 \<lparr>raw = (\<lambda>i. i), pos = 0\<rparr> = Inr (dc, gc)"
    "int (length (records dc)) = 2" using laws h by blast
  then have c: "map_option (\<lambda>df. length (records df))
     (returned (generate_customer_data 2 \<lparr>raw = (\<lambda>i. i), pos = 0\<rparr>)) = Some 2"
    by (simp add: returned_def)
  show ?thesis using h s c by simp
qed

section \<open>The first row of a frame, and what rounding keeps\<close>

lemma financial_row_eval:
  "financial_row 0 738156 \<lparr>raw = (\<lambda>i. if i = 0 then 3 * 2 ^ 43 else 2 ^ 43), pos = 0\<rparr> =
     Inr ([(''Month'', CDate 738156),
           (''Revenue'', CFloat (to_double 480146.48)),
           (''COGS'', CFloat (to_double 264127.46)),
           (''Operating_Expenses'', CFloat (to_double 96076.19)),
           (''Gross_Profit'', CFloat (to_double 216019.03)),
           (''Net_Profit'', CFloat (to_double 119942.84)),
           (''Budget_Revenue'', CFloat (to_double 432225.61)),
           (''Cash_Flow'', CFloat (to_double 96001.13))],
          \<lparr>raw = (\<lambda>i. if i = 0 then 3 * 2 ^ 43 else 2 ^ 43), pos = 5\<rparr>)"
  by (simp add: financial_row_def base_revenue_def and_then_def uniform_def random_def
      next_raw_def ret_def Let_def py_round_def decimal_round_def round_half_even_def)


text \<open>
  The quotient \<open>13 / 800\<close> is \<open>0.01625\<close>, a tie between \<open>0.0162\<close> and \<open>0.0163\<close>; the double
  nearest to it lies above the tie, and \<^verbatim>\<open>round\<close> gives \<open>0.0163\<close>.
\<close>

lemma to_double_13_800: "to_double (13 / 800) = 4683743612465316 / 2 ^ 58"
  by (simp add: to_double_def exponent_def pow2_def bit_length.simps round_half_even_def Let_def)

lemma defect_rate_13_800: "py_round (to_double (13 / 800)) 4 = to_double 0.0163"
  by (simp add: to_double_13_800 py_round_def decimal_round_def round_half_even_def)

lemma operations_row_eval:
  "operations_row 738521 ''Morning'' \<lparr>raw = (\<lambda>i. if i = 1 then 11 * 2 ^ 47 else 0), pos = 0\<rparr> =
     Inr ([(''Date'', CDate 738521),
           (''Shift'', CStr ''Morning''),
           (''Units_Produced'', CInt 800),
           (''Defects'', CInt 13),
           (''Defect_Rate'', CFloat (to_double 0.0163)),
           (''Downtime_Minutes'', CInt 0),
           (''Efficiency'', CFloat (py_round 0.75 3)),
           (''Energy_Used'', CInt 500),
           (''Labor_Hours'', CInt 150)],
          \<lparr>raw = (\<lambda>i. if i = 1 then 11 * 2 ^ 47 else 0), pos = 6\<rparr>)"
  by (simp add: operations_row_def and_then_def uniform_def random_def randint_def randbelow_def
      truediv_def py_int_def next_raw_def ret_def Let_def defect_rate_13_800)

lemma operations_first_row:
  assumes "operations_row (datetime 2023 1 1) ''Morning'' g = Inr (r0, g1)"
  shows "post (generate_operations_data n) g (\<lambda>df _. \<exists>rs. records df = r0 # rs)"
proof -
  let ?row = "\<lambda>date shift data. and_then (operations_row date shift) (\<lambda>r. ret (data @ [r]))"
  let ?inner = "\<lambda>date data. for_loop [''Morning'', ''Evening'', ''Night''] (?row date) data"
  have app_in: "post (?row date shift a) h (\<lambda>a' _. \<exists>rs. a' = a @ rs)" for date shift a h
    by (rule post_True_appends[OF operations_row_post])
  have app_out: "post (?inner date a) h (\<lambda>a' _. \<exists>rs. a' = a @ rs)" for date a h
    by (rule for_loop_appends, rule app_in)
  have "?row (datetime 2023 1 1) ''Morning'' [] g = Inr ([r0], g1)"
    using assms by (simp add: and_then_def ret_def)
  then have "post (?inner (datetime 2023 1 1) []) g (\<lambda>a _. \<exists>rs. a = [r0] @ rs)"
    by (rule for_loop_first[OF app_in])
  then obtain a1 g2 where a1: "?inner (datetime 2023 1 1) [] g = Inr (a1, g2)"
    and "\<exists>rs. a1 = [r0] @ rs" by (auto simp: post_iff)
  then obtain ts where ts: "a1 = r0 # ts" by auto
  have dates: "date_range_D (datetime 2023 1 1) (datetime 2024 12 31)
                 = datetime 2023 1 1 # [datetime 2023 1 1 + 1..datetime 2024 12 31]"
    unfolding date_range_D_def by (rule upto_rec1) (simp add: datetime_2023 datetime_2024_end)
  have "post (for_loop (datetime 2023 1 1 # [datetime 2023 1 1 + 1..datetime 2024 12 31]) ?inner []) g
          (\<lambda>a _. \<exists>rs. a = a1 @ rs)"
    using a1 by (rule for_loop_first[OF app_out])
  then have "post (for_loop (date_range_D (datetime 2023 1 1) (datetime 2024 12 31)) ?inner []) g
          (\<lambda>a _. \<exists>rs. a = r0 # rs)"
    unfolding dates using ts by (auto elim!: post_mono)
  then show ?thesis
    unfolding generate_operations_data_def Let_def
    by (auto elim!: post_mono simp: DataFrame_def)
qed

lemma financial_first_row:
  assumes "financial_row 0 738156 g = Inr (r0, g1)"
  shows "post generate_financial_data g (\<lambda>df _. \<exists>rs. records df = r0 # rs)"
proof -
  let ?body = "\<lambda>(i, month) data. and_then (financial_row i month) (\<lambda>r. ret (data @ [r]))"
  have app: "post (?body im a) h (\<lambda>a' _. \<exists>rs. a' = a @ rs)" for im a h
    by (cases im) (simp only: prod.case, rule post_True_appends[OF financial_row_post])
  have "?body (0, 738156) [] g = Inr ([r0], g1)"
    using assms by (simp add: and_then_def ret_def)
  then have "post (for_loop ((0, 738156) # enumerate 1 (tl (date_range_MS (2022, 1, 1) (2024, 12, 31))))
               ?body []) g (\<lambda>a _. \<exists>rs. a = [r0] @ rs)"
    by (rule for_loop_first[OF app])
  moreover have "enumerate 0 (date_range_MS (2022, 1, 1) (2024, 12, 31))
      = (0, 738156) # enumerate 1 (tl (date_range_MS (2022, 1, 1) (2024, 12, 31)))"
    by (simp add: months_eval)
  ultimately have "post (for_loop (enumerate 0 (date_range_MS (2022, 1, 1) (2024, 12, 31))) ?body []) g
      (\<lambda>a _. \<exists>rs. a = [r0] @ rs)" by simp
  then show ?thesis
    unfolding generate_financial_data_def Let_def
    by (auto elim!: post_mono simp: DataFrame_def)
qed

lemma financial_rows_ok:
  "post generate_financial_data g
     (\<lambda>df _. \<forall>r\<in>set (records df). \<exists>i month. i < 36 \<and> financial_row_ok i month r)"
proof (rule post_mono[OF generate_financial_data_post])
  fix df :: data_frame and g' :: rng
  let ?months = "date_range_MS (2022, 1, 1) (2024, 12, 31)"
  assume a: "length (records df) = length ?months \<and>
        (\<forall>k<length ?months. financial_row_ok k (?months ! k) (records df ! k))"
  have len: "length ?months = 36" by (simp add: months_eval)
  show "\<forall>r\<in>set (records df). \<exists>i month. i < 36 \<and> financial_row_ok i month r"
  proof
    fix r assume "r \<in> set (records df)"
    then obtain k where k: "k < length (records df)" "r = records df ! k"
      by (auto simp: in_set_conv_nth)
    then have "financial_row_ok k (?months ! k) r" using a by simp
    moreover have "k < 36" using k a len by simp
    ultimately show "\<exists>i month. i < 36 \<and> financial_row_ok i month r" by blast
  qed
qed

text \<open>Over the 36 months the revenue before rounding stays below 868750.\<close>

lemma financial_row_bounds:
  assumes "i < 36" "financial_row_ok i month r"
  shows "\<exists>revenue cogs opex.
        field r ''Revenue'' = Some (CFloat (py_round revenue 2)) \<and>
        field r ''COGS'' = Some (CFloat (py_round cogs 2)) \<and>
        field r ''Operating_Expenses'' = Some (CFloat (py_round opex 2)) \<and>
        field r ''Gross_Profit'' = Some (CFloat (py_round (revenue - cogs) 2)) \<and>
        field r ''Net_Profit'' = Some (CFloat (py_round (revenue - cogs - opex) 2)) \<and>
        430000 \<le> revenue \<and> revenue \<le> 868750 \<and>
        0.55 * revenue \<le> cogs \<and> cogs \<le> 0.65 * revenue \<and>
        0.2 * revenue \<le> opex \<and> opex \<le> 0.3 * revenue"
proof -
  obtain rev cogs opex where f:
    "field r ''Revenue'' = Some (CFloat (py_round rev 2))"
    "field r ''COGS'' = Some (CFloat (py_round cogs 2))"
    "field r ''Operating_Expenses'' = Some (CFloat (py_round opex 2))"
    "field r ''Gross_Profit'' = Some (CFloat (py_round (rev - cogs) 2))"
    "field r ''Net_Profit'' = Some (CFloat (py_round (rev - cogs - opex) 2))"
    and b: "430000 \<le> rev" "rev \<le> 550000 * (1 + 0.015 * real i) + 30000"
      "0.55 * rev \<le> cogs" "cogs \<le> 0.65 * rev" "0.2 * rev \<le> opex" "opex \<le> 0.3 * rev"
    using assms(2) unfolding financial_row_ok_def by blast
  have "real i \<le> 35" using assms(1) by simp
  then have "rev \<le> 868750" using b(2) by simp
  then show ?thesis using f b by blast
qed


lemma int_abs_le_of_real:
  fixes z :: int
  assumes "\<bar>real_of_int z\<bar> \<le> b"
  shows "\<bar>real_of_int z\<bar> \<le> of_int \<lfloor>b\<rfloor>"
proof -
  have "real_of_int z \<le> b" "real_of_int (- z) \<le> b" using assms by auto
  then have "z \<le> \<lfloor>b\<rfloor>" "- z \<le> \<lfloor>b\<rfloor>" by (simp_all only: le_floor_iff)
  then have "\<bar>z\<bar> \<le> \<lfloor>b\<rfloor>" by simp
  then have "real_of_int \<bar>z\<bar> \<le> real_of_int \<lfloor>b\<rfloor>" by (simp only: of_int_le_iff)
  then show ?thesis by simp
qed

lemma decimal_round_difference:
  "\<bar>decimal_round (a - b) 2 - (decimal_round a 2 - decimal_round b 2)\<bar> \<le> 0.01"
proof -
  let ?A = "round_half_even (a * 100)"
  let ?B = "round_half_even (b * 100)"
  let ?G = "round_half_even ((a - b) * 100)"
  have "\<bar>real_of_int ?A - a * 100\<bar> \<le> 1 / 2" "\<bar>real_of_int ?B - b * 100\<bar> \<le> 1 / 2"
    "\<bar>real_of_int ?G - (a - b) * 100\<bar> \<le> 1 / 2"
    by (rule round_half_even_near)+
  then have "\<bar>real_of_int (?G - (?A - ?B))\<bar> \<le> 3 / 2"
    unfolding abs_le_iff of_int_diff left_diff_distrib by linarith
  then have "\<bar>real_of_int (?G - (?A - ?B))\<bar> \<le> of_int \<lfloor>3 / 2 :: real\<rfloor>"
    by (rule int_abs_le_of_real)
  then have "\<bar>real_of_int ?G - (real_of_int ?A - real_of_int ?B)\<bar> \<le> 1" by simp
  then have "\<bar>real_of_int ?G / 100 - (real_of_int ?A / 100 - real_of_int ?B / 100)\<bar> \<le> 1 / 100"
    by linarith
  then show ?thesis by (simp add: decimal_round_def)
qed

lemma decimal_round_difference3:
  "\<bar>decimal_round (a - b - c) 2
     - (decimal_round a 2 - decimal_round b 2 - decimal_round c 2)\<bar> \<le> 0.02"
proof -
  let ?A = "round_half_even (a * 100)"
  let ?B = "round_half_even (b * 100)"
  let ?C = "round_half_even (c * 100)"
  let ?N = "round_half_even ((a - b - c) * 100)"
  have "\<bar>real_of_int ?A - a * 100\<bar> \<le> 1 / 2" "\<bar>real_of_int ?B - b * 100\<bar> \<le> 1 / 2"
    "\<bar>real_of_int ?C - c * 100\<bar> \<le> 1 / 2"
    "\<bar>real_of_int ?N - (a - b - c) * 100\<bar> \<le> 1 / 2"
    by (rule round_half_even_near)+
  then have "\<bar>real_of_int ?N - (real_of_int ?A - real_of_int ?B - real_of_int ?C)\<bar> \<le> 2"
    unfolding abs_le_iff left_diff_distrib by linarith
  then have "\<bar>real_of_int ?N / 100
               - (real_of_int ?A / 100 - real_of_int ?B / 100 - real_of_int ?C / 100)\<bar> \<le> 2 / 100"
    by linarith
  then show ?thesis by (simp add: decimal_round_def)
qed

text \<open>The same differences on the stored doubles, for amounts up to a million.\<close>

lemma py_round_difference:
  assumes "\<bar>a\<bar> \<le> 1000000" "\<bar>b\<bar> \<le> 1000000" "\<bar>a - b\<bar> \<le> 1000000"
  shows "\<bar>py_round (a - b) 2 - (py_round a 2 - py_round b 2)\<bar> \<le> 0.011"
  using py_round_decimal_near[OF assms(1)] py_round_decimal_near[OF assms(2)]
    py_round_decimal_near[OF assms(3)] decimal_round_difference[of a b]
  unfolding abs_le_iff by simp

lemma py_round_difference3:
  assumes "\<bar>a\<bar> \<le> 1000000" "\<bar>b\<bar> \<le> 1000000" "\<bar>c\<bar> \<le> 1000000" "\<bar>a - b - c\<bar> \<le> 1000000"
  shows "\<bar>py_round (a - b - c) 2 - (py_round a 2 - py_round b 2 - py_round c 2)\<bar> \<le> 0.021"
  using py_round_decimal_near[OF assms(1)] py_round_decimal_near[OF assms(2)]
    py_round_decimal_near[OF assms(3)] py_round_decimal_near[OF assms(4)]
    decimal_round_difference3[of a b c]
  unfolding abs_le_iff by simp

lemma financial_row_rounded:
  assumes "i < 36" "financial_row_ok i month r"
  shows "\<exists>revenue cogs opex.
        field r ''Revenue'' = Some (CFloat (py_round revenue 2)) \<and>
        field r ''COGS'' = Some (CFloat (py_round cogs 2)) \<and>
        field r ''Operating_Expenses'' = Some (CFloat (py_round opex 2)) \<and>
        field r ''Gross_Profit'' = Some (CFloat (py_round (revenue - cogs) 2)) \<and>
        field r ''Net_Profit'' = Some (CFloat (py_round (revenue - cogs - opex) 2)) \<and>
        \<bar>decimal_round (revenue - cogs) 2
           - (decimal_round revenue 2 - decimal_round cogs 2)\<bar> \<le> 0.01 \<and>
        \<bar>decimal_round (revenue - cogs - opex) 2
           - (decimal_round revenue 2 - decimal_round cogs 2 - decimal_round opex 2)\<bar> \<le> 0.02 \<and>
        \<bar>py_round (revenue - cogs) 2 - (py_round revenue 2 - py_round cogs 2)\<bar> \<le> 0.011 \<and>
        \<bar>py_round (revenue - cogs - opex) 2
           - (py_round revenue 2 - py_round cogs 2 - py_round opex 2)\<bar> \<le> 0.021"
proof -
  obtain rev cogs opex where f:
    "field r ''Revenue'' = Some (CFloat (py_round rev 2))"
    "field r ''COGS'' = Some (CFloat (py_round cogs 2))"
    "field r ''Operating_Expenses'' = Some (CFloat (py_round opex 2))"
    "field r ''Gross_Profit'' = Some (CFloat (py_round (rev - cogs) 2))"
    "field r ''Net_Profit'' = Some (CFloat (py_round (rev - cogs - opex) 2))"
    and b: "430000 \<le> rev" "rev \<le> 868750" "0.55 * rev \<le> cogs" "cogs \<le> 0.65 * rev"
      "0.2 * rev \<le> opex" "opex \<le> 0.3 * rev"
    using financial_row_bounds[OF assms] by blast
  have m: "\<bar>rev\<bar> \<le> 1000000" "\<bar>cogs\<bar> \<le> 1000000" "\<bar>opex\<bar> \<le> 1000000"
    "\<bar>rev - cogs\<bar> \<le> 1000000" "\<bar>rev - cogs - opex\<bar> \<le> 1000000"
    using b by simp_all
  show ?thesis
    using f decimal_round_difference[of rev cogs] decimal_round_difference3[of rev cogs opex]
      py_round_difference[OF m(1,2,4)] py_round_difference3[OF m(1,2,3,5)]
    by blast
qed

text \<open>The doubles of three rows that follow, as fractions.\<close>

lemma to_double_480146_48: "to_double 480146.48 = 1031106714444759 / 2 ^ 31"
  by (simp add: to_double_def exponent_def pow2_def bit_length.simps round_half_even_def Let_def)

lemma to_double_264127_46: "to_double 264127.46 = 4537675210702193 / 2 ^ 34"
  by (simp add: to_double_def exponent_def pow2_def bit_length.simps round_half_even_def Let_def)

lemma to_double_96076_19: "to_double 96076.19 = 1650576375897129 / 2 ^ 34"
  by (simp add: to_double_def exponent_def pow2_def bit_length.simps round_half_even_def Let_def)

lemma to_double_216019_03: "to_double 216019.03 = 7422357353309143 / 2 ^ 35"
  by (simp add: to_double_def exponent_def pow2_def bit_length.simps round_half_even_def Let_def)

lemma to_double_119942_84: "to_double 119942.84 = 4121204601514885 / 2 ^ 35"
  by (simp add: to_double_def exponent_def pow2_def bit_length.simps round_half_even_def Let_def)



section \<open>The operations and financial rows\<close>

text \<open>
  C6. For every state of the random source, \<open>generate_operations_data\<close> returns a frame,
  and in each of its rows \<open>0 \<le> Defects \<le> Units_Produced\<close> and \<open>Defect_Rate\<close> is Python's
  \<^verbatim>\<open>round(Defects / Units_Produced, 4)\<close> of the same row: the quotient of the two stored
  ints as a double, rounded to four places.
\<close>

theorem operations_defects_bounded:
  "\<exists>df g'. generate_operations_data n g = Inr (df, g') \<and>
     (\<forall>r\<in>set (records df). \<exists>produced defects.
        field r ''Units_Produced'' = Some (CInt produced) \<and>
        field r ''Defects'' = Some (CInt defects) \<and>
        0 \<le> defects \<and> defects \<le> produced \<and> 0 < produced \<and>
        field r ''Defect_Rate''
          = Some (CFloat (py_round (to_double (of_int defects / of_int produced)) 4)))"
proof -
  have "post (generate_operations_data n) g
     (\<lambda>df _. \<forall>r\<in>set (records df). \<exists>produced defects.
        field r ''Units_Produced'' = Some (CInt produced) \<and>
        field r ''Defects'' = Some (CInt defects) \<and>
        0 \<le> defects \<and> defects \<le> produced \<and> 0 < produced \<and>
        field r ''Defect_Rate''
          = Some (CFloat (py_round (to_double (of_int defects / of_int produced)) 4)))"
  proof (rule post_mono[OF generate_operations_data_post], rule ballI)
    fix df :: data_frame and g' :: rng and r
    assume "length (records df)
              = 3 * length (date_range_D (datetime 2023 1 1) (datetime 2024 12 31)) \<and>
            (\<forall>r\<in>set (records df). operations_row_ok r)"
      and "r \<in> set (records df)"
    then have "operations_row_ok r" by blast
    then obtain p d where "field r ''Units_Produced'' = Some (CInt p)"
      "field r ''Defects'' = Some (CInt d)" "800 \<le> p" "0 \<le> d" "d \<le> p"
      "field r ''Defect_Rate''
          = Some (CFloat (py_round (to_double (of_int d / of_int p)) 4))"
      unfolding operations_row_ok_def by blast
    moreover from this have "0 < p" by simp
    ultimately show "\<exists>produced defects.
        field r ''Units_Produced'' = Some (CInt produced) \<and>
        field r ''Defects'' = Some (CInt defects) \<and>
        0 \<le> defects \<and> defects \<le> produced \<and> 0 < produced \<and>
        field r ''Defect_Rate''
          = Some (CFloat (py_round (to_double (of_int defects / of_int produced)) 4))" by blast
  qed
  then show ?thesis by (simp only: post_iff)
qed

text \<open>
  The first row (2023-01-01, morning shift) from a stream that gives 800 units and a
  defect share of 0.016875: 13 defects, and the rate 0.0163, where the exact quotient
  0.01625 would be a tie and round to 0.0162.
\<close>

theorem operations_defects_bounded_witness:
  "map_option
     (\<lambda>df. map (field (hd (records df))) [''Units_Produced'', ''Defects'', ''Defect_Rate''])
     (returned (generate_operations_data 2000 \<lparr>raw = (\<lambda>i. if i = 1 then 11 * 2 ^ 47 else 0), pos = 0\<rparr>))
   = Some [Some (CInt 800), Some (CInt 13), Some (CFloat (to_double 0.0163))] \<and>
   py_round (to_double (13 / 800)) 4 = to_double 0.0163"
proof -
  have "operations_row (datetime 2023 1 1) ''Morning'' \<lparr>raw = (\<lambda>i. if i = 1 then 11 * 2 ^ 47 else 0), pos = 0\<rparr> = Inr
          ([(''Date'', CDate 738521),
           (''Shift'', CStr ''Morning''),
           (''Units_Produced'', CInt 800),
           (''Defects'', CInt 13),
           (''Defect_Rate'', CFloat (to_double 0.0163)),
           (''Downtime_Minutes'', CInt 0),
           (''Efficiency'', CFloat (py_round 0.75 3)),
           (''Energy_Used'', CInt 500),
           (''Labor_Hours'', CInt 150)],
          \<lparr>raw = (\<lambda>i. if i = 1 then 11 * 2 ^ 47 else 0), pos = 6\<rparr>)"
    by (simp only: datetime_2023 operations_row_eval)
  from operations_first_row[OF this, of 2000]
  show ?thesis using operations_defects_bounded [of 2000 "\<lparr>raw = (\<lambda>i. if i = 1 then 11 * 2 ^ 47 else 0), pos = 0\<rparr>"]
    by (auto simp: post_iff returned_def field_def defect_rate_13_800)
qed




text \<open>
  C2, as the code has it. In every row of \<open>generate_financial_data\<close> the five money
  fields are each rounded to two places from values before rounding: \<open>Gross_Profit\<close> from
  revenue minus cost of goods sold, \<open>Net_Profit\<close> from revenue minus cost of goods sold
  minus operating expenses. As decimals with two places, \<open>Gross_Profit\<close> is within 0.01
  of \<open>Revenue - COGS\<close> and \<open>Net_Profit\<close> within 0.02 of
  \<open>Revenue - COGS - Operating_Expenses\<close>; as the doubles that are stored, within 0.011
  and 0.021.
\<close>

theorem financial_profits_rounded_from_unrounded:
  "\<exists>df g'. generate_financial_data g = Inr (df, g') \<and>
     (\<forall>r\<in>set (records df). \<exists>revenue cogs opex.
        field r ''Revenue'' = Some (CFloat (py_round revenue 2)) \<and>
        field r ''COGS'' = Some (CFloat (py_round cogs 2)) \<and>
        field r ''Operating_Expenses'' = Some (CFloat (py_round opex 2)) \<and>
        field r ''Gross_Profit'' = Some (CFloat (py_round (revenue - cogs) 2)) \<and>
        field r ''Net_Profit'' = Some (CFloat (py_round (revenue - cogs - opex) 2)) \<and>
        \<bar>decimal_round (revenue - cogs) 2
           - (decimal_round revenue 2 - decimal_round cogs 2)\<bar> \<le> 0.01 \<and>
        \<bar>decimal_round (revenue - cogs - opex) 2
           - (decimal_round revenue 2 - decimal_round cogs 2 - decimal_round opex 2)\<bar> \<le> 0.02 \<and>
        \<bar>py_round (revenue - cogs) 2 - (py_round revenue 2 - py_round cogs 2)\<bar> \<le> 0.011 \<and>
        \<bar>py_round (revenue - cogs - opex) 2
           - (py_round revenue 2 - py_round cogs 2 - py_round opex 2)\<bar> \<le> 0.021)"
proof -
  have "post generate_financial_data g
     (\<lambda>df _. \<forall>r\<in>set (records df). \<exists>revenue cogs opex.
        field r ''Revenue'' = Some (CFloat (py_round revenue 2)) \<and>
        field r ''COGS'' = Some (CFloat (py_round cogs 2)) \<and>
        field r ''Operating_Expenses'' = Some (CFloat (py_round opex 2)) \<and>
        field r ''Gross_Profit'' = Some (CFloat (py_round (revenue - cogs) 2)) \<and>
        field r ''Net_Profit'' = Some (CFloat (py_round (revenue - cogs - opex) 2)) \<and>
        \<bar>decimal_round (revenue - cogs) 2
           - (decimal_round revenue 2 - decimal_round cogs 2)\<bar> \<le> 0.01 \<and>
        \<bar>decimal_round (revenue - cogs - opex) 2
           - (decimal_round revenue 2 - decimal_round cogs 2 - decimal_round opex 2)\<bar> \<le> 0.02 \<and>
        \<bar>py_round (revenue - cogs) 2 - (py_round revenue 2 - py_round cogs 2)\<bar> \<le> 0.011 \<and>
        \<bar>py_round (revenue - cogs - opex) 2
           - (py_round revenue 2 - py_round cogs 2 - py_round opex 2)\<bar> \<le> 0.021)"
  proof (rule post_mono[OF financial_rows_ok], rule ballI)
    fix df :: data_frame and g' :: rng and r
    assume "\<forall>r\<in>set (records df). \<exists>i month. i < 36 \<and> financial_row_ok i month r"
      and "r \<in> set (records df)"
    then obtain i month where "i < 36" "financial_row_ok i month r" by blast
    then show "\<exists>revenue cogs opex.
        field r ''Revenue'' = Some (CFloat (py_round revenue 2)) \<and>
        field r ''COGS'' = Some (CFloat (py_round cogs 2)) \<and>
        field r ''Operating_Expenses'' = Some (CFloat (py_round opex 2)) \<and>
        field r ''Gross_Profit'' = Some (CFloat (py_round (revenue - cogs) 2)) \<and>
        field r ''Net_Profit'' = Some (CFloat (py_round (revenue - cogs - opex) 2)) \<and>
        \<bar>decimal_round (revenue - cogs) 2
           - (decimal_round revenue 2 - decimal_round cogs 2)\<bar> \<le> 0.01 \<and>
        \<bar>decimal_round (revenue - cogs - opex) 2
           - (decimal_round revenue 2 - decimal_round cogs 2 - decimal_round opex 2)\<bar> \<le> 0.02 \<and>
        \<bar>py_round (revenue - cogs) 2 - (py_round revenue 2 - py_round cogs 2)\<bar> \<le> 0.011 \<and>
        \<bar>py_round (revenue - cogs - opex) 2
           - (py_round revenue 2 - py_round cogs 2 - py_round opex 2)\<bar> \<le> 0.021" by (rule financial_row_rounded)
  qed
  then show ?thesis by (simp only: post_iff)
qed

text \<open>
  The row of January 2022 from the stream \<open>3 * 2^43, 2^43, 2^43, ...\<close>: gross profit
  216019.03, revenue 480146.48, cost of goods sold 264127.46. The decimals differ by
  0.01, the stored doubles by a little more.
\<close>

theorem financial_profits_rounded_from_unrounded_witness:
  "map_option
     (\<lambda>df. map (field (hd (records df))) [''Gross_Profit'', ''Revenue'', ''COGS''])
     (returned (generate_financial_data \<lparr>raw = (\<lambda>i. if i = 0 then 3 * 2 ^ 43 else 2 ^ 43), pos = 0\<rparr>))
   = Some [Some (CFloat (to_double 216019.03)), Some (CFloat (to_double 480146.48)),
           Some (CFloat (to_double 264127.46))] \<and>
   \<bar>216019.03 - (480146.48 - 264127.46)\<bar> \<le> (0.01 :: real) \<and>
   \<bar>to_double 216019.03 - (to_double 480146.48 - to_double 264127.46)\<bar> \<le> 0.011 \<and>
   0.01 < \<bar>to_double 216019.03 - (to_double 480146.48 - to_double 264127.46)\<bar>"
proof -
  have "map_option
     (\<lambda>df. map (field (hd (records df))) [''Gross_Profit'', ''Revenue'', ''COGS''])
     (returned (generate_financial_data \<lparr>raw = (\<lambda>i. if i = 0 then 3 * 2 ^ 43 else 2 ^ 43), pos = 0\<rparr>))
   = Some [Some (CFloat (to_double 216019.03)), Some (CFloat (to_double 480146.48)),
           Some (CFloat (to_double 264127.46))]"
    using financial_profits_rounded_from_unrounded [of "\<lparr>raw = (\<lambda>i. if i = 0 then 3 * 2 ^ 43 else 2 ^ 43), pos = 0\<rparr>"]
      financial_first_row[OF financial_row_eval]
    by (auto simp: post_iff returned_def field_def)
  moreover have "\<bar>216019.03 - (480146.48 - 264127.46)\<bar> \<le> (0.01 :: real)" by simp
  moreover have
    "\<bar>to_double 216019.03 - (to_double 480146.48 - to_double 264127.46)\<bar> \<le> 0.011 \<and>
     0.01 < \<bar>to_double 216019.03 - (to_double 480146.48 - to_double 264127.46)\<bar>"
    unfolding to_double_480146_48 to_double_264127_46 to_double_216019_03 by simp
  ultimately show ?thesis by blast
qed

text \<open>
  C2, as the claim states it, requires \<open>Gross_Profit = Revenue - COGS\<close> and
  \<open>Net_Profit = Revenue - COGS - Operating_Expenses\<close> exactly on the stored fields. In
  the row above the revenue before rounding is 480146.484375 and the cost of goods sold
  about 264127.4557: the stored difference is 216019.02, the stored gross profit
  216019.03, and the net profit is off by a cent as well. Whether the difference of the
  stored doubles is taken exactly or rounded to a double again, it is not the stored
  profit.
\<close>

theorem financial_profits_not_exact:
  "map_option
     (\<lambda>df. map (field (hd (records df)))
        [''Revenue'', ''COGS'', ''Operating_Expenses'', ''Gross_Profit'', ''Net_Profit''])
     (returned (generate_financial_data \<lparr>raw = (\<lambda>i. if i = 0 then 3 * 2 ^ 43 else 2 ^ 43), pos = 0\<rparr>))
   = Some [Some (CFloat (to_double 480146.48)), Some (CFloat (to_double 264127.46)),
           Some (CFloat (to_double 96076.19)), Some (CFloat (to_double 216019.03)),
           Some (CFloat (to_double 119942.84))] \<and>
   to_double 216019.03 \<noteq> to_double 480146.48 - to_double 264127.46 \<and>
   to_double 216019.03 \<noteq> to_double (to_double 480146.48 - to_double 264127.46) \<and>
   to_double 119942.84 \<noteq> to_double 480146.48 - to_double 264127.46 - to_double 96076.19 \<and>
   (216019.03 :: real) \<noteq> 480146.48 - 264127.46 \<and>
   (119942.84 :: real) \<noteq> 480146.48 - 264127.46 - 96076.19"
proof -
  have rows: "map_option
     (\<lambda>df. map (field (hd (records df)))
        [''Revenue'', ''COGS'', ''Operating_Expenses'', ''Gross_Profit'', ''Net_Profit''])
     (returned (generate_financial_data \<lparr>raw = (\<lambda>i. if i = 0 then 3 * 2 ^ 43 else 2 ^ 43), pos = 0\<rparr>))
   = Some [Some (CFloat (to_double 480146.48)), Some (CFloat (to_double 264127.46)),
           Some (CFloat (to_double 96076.19)), Some (CFloat (to_double 216019.03)),
           Some (CFloat (to_double 119942.84))]"
    using financial_first_row[OF financial_row_eval]
    by (auto simp: post_iff returned_def field_def)
  have sub: "to_double (to_double 480146.48 - to_double 264127.46) = 3711178504855879 / 2 ^ 34"
    unfolding to_double_480146_48 to_double_264127_46
    by (simp add: to_double_def exponent_def pow2_def bit_length.simps round_half_even_def Let_def)
  have "to_double 216019.03 \<noteq> to_double 480146.48 - to_double 264127.46"
    unfolding to_double_480146_48 to_double_264127_46 to_double_216019_03 by simp
  moreover have "to_double 216019.03 \<noteq> to_double (to_double 480146.48 - to_double 264127.46)"
    unfolding sub to_double_216019_03 by simp
  moreover have "to_double 119942.84
      \<noteq> to_double 480146.48 - to_double 264127.46 - to_double 96076.19"
    unfolding to_double_480146_48 to_double_264127_46 to_double_96076_19 to_double_119942_84
    by simp
  moreover have "(216019.03 :: real) \<noteq> 480146.48 - 264127.46" by simp
  moreover have "(119942.84 :: real) \<noteq> 480146.48 - 264127.46 - 96076.19" by simp
  ultimately show ?thesis using rows by blast
qed

section \<open>Customer identifiers\<close>

lemma digit_char_inj:
  assumes "a < 10" "b < 10" "digit_char a = digit_char b"
  shows "a = b"
proof -
  have "distinct ''0123456789''" by simp
  moreover have "a < length ''0123456789''" "b < length ''0123456789''" using assms by simp_all
  ultimately show ?thesis using assms(3) unfolding digit_char_def
    by (simp only: nth_eq_iff_index_eq)
qed

lemma digits_nonempty: "digits n \<noteq> []"
  by (subst digits.simps) simp

lemma digits_inj: "digits n = digits m \<Longrightarrow> n = m"
proof (induction n arbitrary: m rule: digits.induct)
  case (1 n)
  show ?case
  proof (cases "n < 10")
    case True
    then have n: "digits n = [digit_char n]" by (subst digits.simps) simp
    show ?thesis
    proof (cases "m < 10")
      case m: True
      then have "digits m = [digit_char m]" by (subst digits.simps) simp
      then show ?thesis using n "1.prems" True m digit_char_inj by simp
    next
      case False
      then have "digits m = digits (m div 10) @ [digit_char (m mod 10)]"
        by (subst digits.simps) simp
      then have "digits (m div 10) = []" using n "1.prems" by simp
      then show ?thesis using digits_nonempty by blast
    qed
  next
    case False
    then have n: "digits n = digits (n div 10) @ [digit_char (n mod 10)]"
      by (subst digits.simps) simp
    show ?thesis
    proof (cases "m < 10")
      case True
      then have "digits m = [digit_char m]" by (subst digits.simps) simp
      then have "digits (n div 10) = []" using n "1.prems" by simp
      then show ?thesis using digits_nonempty by blast
    next
      case m: False
      then have "digits m = digits (m div 10) @ [digit_char (m mod 10)]"
        by (subst digits.simps) simp
      then have e: "digits (n div 10) = digits (m div 10)" "digit_char (n mod 10) = digit_char (m mod 10)"
        using n "1.prems" by simp_all
      have "n div 10 = m div 10" using "1.IH"[OF False e(1)] .
      moreover have "n mod 10 = m mod 10" using e(2) by (intro digit_char_inj) simp_all
      ultimately show ?thesis by (metis div_mult_mod_eq)
    qed
  qed
qed

lemma py_str_inj: "0 \<le> i \<Longrightarrow> 0 \<le> j \<Longrightarrow> py_str i = py_str j \<Longrightarrow> i = j"
  using digits_inj[of "nat i" "nat j"] by (simp add: py_str_def)

lemma customer_ids_nth_distinct:
  assumes "\<forall>k<length rows. field (rows ! k) ''Customer_ID''
               = Some (CStr (''CUST-'' @ py_str (int k + 1000)))"
  shows "distinct (map (\<lambda>r. field r ''Customer_ID'') rows)"
proof -
  have "map (\<lambda>r. field r ''Customer_ID'') rows ! i \<noteq> map (\<lambda>r. field r ''Customer_ID'') rows ! j"
    if "i < length rows" "j < length rows" "i \<noteq> j" for i j
  proof
    assume "map (\<lambda>r. field r ''Customer_ID'') rows ! i = map (\<lambda>r. field r ''Customer_ID'') rows ! j"
    then have "py_str (int i + 1000) = py_str (int j + 1000)" using that assms by simp
    then have "int i + 1000 = int j + 1000" by (intro py_str_inj) simp_all
    then show False using that by simp
  qed
  then show ?thesis by (simp add: distinct_conv_nth)
qed

lemma py_str_1000: "py_str 1000 = ''1000''" "py_str 1001 = ''1001''"
  by (simp_all add: py_str_def digits.simps digit_char_def)

lemma sales_customer_ids_repeat:
  "map_option (\<lambda>df. map (\<lambda>r. field r ''Customer_ID'') (records df))
     (returned (generate_sales_data 2 \<lparr>raw = (\<lambda>i. 0), pos = 0\<rparr>))
   = Some [Some (CStr ''CUST-1000''), Some (CStr ''CUST-1000'')]"
  by (simp add: returned_def generate_sales_data_def range_py_def upto.simps and_then_def
      sales_row_def randint_def randbelow_def next_raw_def ret_def uniform_def random_def
      choice_def DataFrame_def field_def Let_def list_get_def dict_get_def
      categories_def subcats_def regions_def segments_def discounts_def states_def py_str_1000)

text \<open>
  C10. For every \<open>n\<close> and every state of the random source, the row at index \<open>k\<close> of
  \<open>generate_customer_data n\<close> has the \<open>Customer_ID\<close> \<open>CUST-\<close> followed by \<open>k + 1000\<close>,
  so the identifiers of a frame are pairwise distinct. The \<open>Customer_ID\<close> of a sales
  row is drawn instead, and can repeat: from the stream 0, 0, 0, ... two sales rows both
  get \<open>CUST-1000\<close>.
\<close>

theorem customer_ids_distinct:
  "(\<exists>df g'. generate_customer_data n g = Inr (df, g') \<and>
      (\<forall>k<length (records df).
         field (records df ! k) ''Customer_ID'' = Some (CStr (''CUST-'' @ py_str (int k + 1000)))) \<and>
      distinct (map (\<lambda>r. field r ''Customer_ID'') (records df))) \<and>
   map_option (\<lambda>df. map (\<lambda>r. field r ''Customer_ID'') (records df))
     (returned (generate_sales_data 2 \<lparr>raw = (\<lambda>i. 0), pos = 0\<rparr>))
   = Some [Some (CStr ''CUST-1000''), Some (CStr ''CUST-1000'')]"
proof (rule conjI)
  have "post (generate_customer_data n) g
     (\<lambda>df _. (\<forall>k<length (records df).
         field (records df ! k) ''Customer_ID'' = Some (CStr (''CUST-'' @ py_str (int k + 1000)))) \<and>
      distinct (map (\<lambda>r. field r ''Customer_ID'') (records df)))"
  proof (rule post_mono[OF generate_customer_data_post])
    fix df :: data_frame and g' :: rng
    assume "length (records df) = nat n \<and>
        (\<forall>k<nat n. field (records df ! k) ''Customer_ID''
                       = Some (CStr (''CUST-'' @ py_str (int k + 1000))))"
    then have ids: "\<forall>k<length (records df).
         field (records df ! k) ''Customer_ID'' = Some (CStr (''CUST-'' @ py_str (int k + 1000)))"
      by simp
    then show "(\<forall>k<length (records df).
         field (records df ! k) ''Customer_ID'' = Some (CStr (''CUST-'' @ py_str (int k + 1000)))) \<and>
      distinct (map (\<lambda>r. field r ''Customer_ID'') (records df))"
      using customer_ids_nth_distinct[OF ids] by blast
  qed
  then show "\<exists>df g'. generate_customer_data n g = Inr (df, g') \<and>
      (\<forall>k<length (records df).
         field (records df ! k) ''Customer_ID'' = Some (CStr (''CUST-'' @ py_str (int k + 1000)))) \<and>
      distinct (map (\<lambda>r. field r ''Customer_ID'') (records df))"
    by (simp only: post_iff)
next
  show "map_option (\<lambda>df. map (\<lambda>r. field r ''Customer_ID'') (records df))
     (returned (generate_sales_data 2 \<lparr>raw = (\<lambda>i. 0), pos = 0\<rparr>))
   = Some [Some (CStr ''CUST-1000''), Some (CStr ''CUST-1000'')]"
    by (rule sales_customer_ids_repeat)
qed

text \<open>Two customer rows from the stream 0, 0, 0, ...: \<open>CUST-1000\<close> and \<open>CUST-1001\<close>.\<close>

theorem customer_ids_distinct_witness:
  "map_option (\<lambda>df. map (\<lambda>r. field r ''Customer_ID'') (records df))
     (returned (generate_customer_data 2 \<lparr>raw = (\<lambda>i. 0), pos = 0\<rparr>))
   = Some [Some (CStr ''CUST-1000''), Some (CStr ''CUST-1001'')]"
  using customer_ids_distinct [of 2 "\<lparr>raw = (\<lambda>i. 0), pos = 0\<rparr>"]
  by (simp add: returned_def generate_customer_data_def range_py_def upto.simps and_then_def
      customer_row_def randint_def randbelow_def next_raw_def ret_def uniform_def random_def
      choice_def DataFrame_def field_def Let_def py_str_1000)

section \<open>The seed and the output of the script\<close>

lemma post_conj:
  assumes "post m g P" "post m g Q"
  shows "post m g (\<lambda>x g'. P x g' \<and> Q x g')"
  using assms by (auto simp: post_def split: sum.splits)

lemma range_py_pos: "0 < n \<Longrightarrow> range_py n = 0 # [1..n - 1]"
  unfolding range_py_def using upto_rec1[of 0 "n - 1"] by simp

lemma sales_dates_first:
  assumes "0 < n"
  shows "post (for_loop (range_py n)
           (\<lambda>_ ds. and_then (randint 0 1095) (\<lambda>k. ret (ds @ [start + k]))) []) g
     (\<lambda>ds _. length ds = nat n \<and> ds ! 0 = start + int (raw g (pos g) mod 1096))"
proof -
  let ?body = "\<lambda>(_::int) ds. and_then (randint 0 1095) (\<lambda>k. ret (ds @ [start + k]))"
  have app: "post (?body i a) h (\<lambda>a' _. \<exists>rs. a' = a @ rs)" for i a h
    by (simp, rule post_randint) simp_all
  have "?body 0 [] g = Inr ([start + int (raw g (pos g) mod 1096)], g\<lparr>pos := Suc (pos g)\<rparr>)"
    by (simp add: and_then_def randint_def randbelow_def next_raw_def ret_def)
  then have "post (for_loop (0 # [1..n - 1]) ?body []) g
      (\<lambda>a _. \<exists>rs. a = [start + int (raw g (pos g) mod 1096)] @ rs)"
    by (rule for_loop_first[OF app])
  then have "post (for_loop (range_py n) ?body []) g
      (\<lambda>a _. \<exists>rs. a = [start + int (raw g (pos g) mod 1096)] @ rs)"
    using assms by (simp only: range_py_pos)
  then have "post (for_loop (range_py n) ?body []) g
      (\<lambda>a _. length a = nat n \<and> (\<exists>rs. a = [start + int (raw g (pos g) mod 1096)] @ rs))"
    using sales_dates_post[of n start g] by (intro post_conj)
  then show ?thesis by (rule post_mono) auto
qed

lemma generate_sales_data_first:
  assumes "0 < n"
  shows "post (generate_sales_data n) g
     (\<lambda>df _. field (hd (records df)) ''Order_Date''
                = Some (CDate (738156 + int (raw g (pos g) mod 1096))))"
proof -
  have rows: "post (for_loop (range_py n)
           (\<lambda>i data. and_then (sales_row dates i) (\<lambda>r. ret (data @ [r]))) []) h
     (\<lambda>a _. field (hd a) ''Order_Date'' = Some (CDate (738156 + int (raw g (pos g) mod 1096))))"
    if d: "length dates = nat n \<and> dates ! 0 = 738156 + int (raw g (pos g) mod 1096)"
    for dates h
  proof (rule post_mono[OF sales_rows_post])
    show "length dates = nat n" using d by simp
  next
    fix a :: "row list" and g' :: rng
    assume a: "length a = nat n \<and> (\<forall>k<nat n. sales_row_ok dates (int k) (a ! k))"
    have n0: "0 < nat n" using assms by simp
    then have "sales_row_ok dates (int 0) (a ! 0)" using a by blast
    then have "a \<noteq> []" "sales_row_ok dates 0 (a ! 0)" using a n0 by auto
    then have "field (hd a) ''Order_Date'' = Some (CDate (dates ! 0))"
      by (simp add: hd_conv_nth sales_row_ok_def)
    then show "field (hd a) ''Order_Date'' = Some (CDate (738156 + int (raw g (pos g) mod 1096)))"
      using d by simp
  qed
  show ?thesis
    unfolding generate_sales_data_def Let_def
    apply (simp add: DataFrame_def)
    apply (rule post_mono[OF sales_dates_first[OF assms]])
    apply (rule rows)
    apply assumption
    done
qed

lemma script_sales_first:
  "map_option (\<lambda>(sales_df, operations_df, financial_df, customer_df).
       field (hd (records sales_df)) ''Order_Date'') (returned (snd (script seed g)))
     = Some (Some (CDate (738156 + int (raw g (pos g) mod 1096))))"
proof -
  let ?d = "Some (CDate (738156 + int (raw g (pos g) mod 1096)))"
  have "post (and_then (generate_sales_data 5000) (\<lambda>sales_df.
       and_then (generate_operations_data 2000) (\<lambda>operations_df.
       and_then generate_financial_data (\<lambda>financial_df.
       and_then (generate_customer_data 1500) (\<lambda>customer_df.
       ret (sales_df, operations_df, financial_df, customer_df)))))) g
     (\<lambda>dfs _. (case dfs of (sales_df, operations_df, financial_df, customer_df) \<Rightarrow>
          field (hd (records sales_df)) ''Order_Date'') = ?d)"
    apply simp
    apply (rule post_mono[OF generate_sales_data_first], simp)
    apply (rule post_mono[OF generate_operations_data_post])
    apply (rule post_mono[OF generate_financial_data_post])
    apply (rule post_mono[OF generate_customer_data_post])
    apply assumption
    done
  then show ?thesis
    by (auto simp: script_def Let_def post_iff returned_def)
qed

text \<open>
  C1 requires two runs with the same seed to produce the same sales frame. The script
  seeds NumPy's generator only, and no generator draws from it: the first order date of
  the sales frame is 2022-01-01 plus the first number that the \<^verbatim>\<open>random\<close> module gives,
  reduced modulo 1096. Two runs with seed 42, one where that module starts with the
  number 0 and one where it starts with 1, leave NumPy's generator in the same state and
  return different frames: the first order dates are 2022-01-01 and 2022-01-02.
\<close>

theorem script_output_not_fixed_by_seed:
  "fst (script 42 \<lparr>raw = (\<lambda>i. i), pos = 0\<rparr>) = fst (script 42 \<lparr>raw = (\<lambda>i. i + 1), pos = 0\<rparr>) \<and>
   map_option (\<lambda>(sales_df, operations_df, financial_df, customer_df).
       field (hd (records sales_df)) ''Order_Date'')
     (returned (snd (script 42 \<lparr>raw = (\<lambda>i. i), pos = 0\<rparr>)))
     = Some (Some (CDate 738156)) \<and>
   map_option (\<lambda>(sales_df, operations_df, financial_df, customer_df).
       field (hd (records sales_df)) ''Order_Date'')
     (returned (snd (script 42 \<lparr>raw = (\<lambda>i. i + 1), pos = 0\<rparr>)))
     = Some (Some (CDate 738157)) \<and>
   script 42 \<lparr>raw = (\<lambda>i. i), pos = 0\<rparr> \<noteq> script 42 \<lparr>raw = (\<lambda>i. i + 1), pos = 0\<rparr>"
proof -
  have a: "map_option (\<lambda>(sales_df, operations_df, financial_df, customer_df).
       field (hd (records sales_df)) ''Order_Date'')
     (returned (snd (script 42 \<lparr>raw = (\<lambda>i. i), pos = 0\<rparr>)))
     = Some (Some (CDate 738156))"
    using script_sales_first[of 42 "\<lparr>raw = (\<lambda>i. i), pos = 0\<rparr>"] by simp
  have b: "map_option (\<lambda>(sales_df, operations_df, financial_df, customer_df).
       field (hd (records sales_df)) ''Order_Date'')
     (returned (snd (script 42 \<lparr>raw = (\<lambda>i. i + 1), pos = 0\<rparr>)))
     = Some (Some (CDate 738157))"
    using script_sales_first[of 42 "\<lparr>raw = (\<lambda>i. i + 1), pos = 0\<rparr>"] by simp
  have c: "fst (script 42 \<lparr>raw = (\<lambda>i. i), pos = 0\<rparr>)
         = fst (script 42 \<lparr>raw = (\<lambda>i. i + 1), pos = 0\<rparr>)"
    by (simp add: script_def Let_def)
  have "script 42 \<lparr>raw = (\<lambda>i. i), pos = 0\<rparr> \<noteq> script 42 \<lparr>raw = (\<lambda>i. i + 1), pos = 0\<rparr>"
  proof
    assume eq: "script 42 \<lparr>raw = (\<lambda>i. i), pos = 0\<rparr> = script 42 \<lparr>raw = (\<lambda>i. i + 1), pos = 0\<rparr>"
    have "Some (Some (CDate 738156)) = Some (Some (CDate 738157))"
      using a b unfolding eq by (rule trans[OF sym])
    then show False by simp
  qed
  then show ?thesis using a b c by blast
qed

end
